theory Spec2Isabelle
  imports Main
begin

section \<open>Errors\<close>

text \<open>
  The exceptions of \<^verbatim>\<open>humod.errors\<close> that \<^verbatim>\<open>humodem.py\<close> raises or documents: the
  error raised by \<^verbatim>\<open>errors.check_for_errors\<close> (documented in \<^verbatim>\<open>return_data\<close> as
  \<^verbatim>\<open>AtCommandError\<close>), \<^verbatim>\<open>HumodUsageError\<close> and \<^verbatim>\<open>PppdError\<close>, each with its message,
  and Python's \<^verbatim>\<open>AttributeError\<close> for an attribute access on \<^verbatim>\<open>None\<close>.
\<close>

datatype error =
    AtCommandError string
  | HumodUsageError string
  | PppdError string
  | AttributeError string

section \<open>The serial port\<close>

text \<open>
  \<^verbatim>\<open>ModemPort\<close> extends \<^verbatim>\<open>serial.Serial\<close>. The model keeps what the calls of this
  module observe: \<open>rx\<close> holds the lines the device delivers, oldest first, one entry per
  \<^verbatim>\<open>readline()\<close>; \<open>tx\<close> holds what was written, in order; \<open>has_timeout\<close> says
  whether a read timeout is configured (the control port has one, the data port none).
  A \<^verbatim>\<open>readline()\<close> with nothing to deliver returns the empty string when a timeout is
  configured and never returns otherwise: not returning is the value \<open>None\<close>.
\<close>

record port =
  rx :: "string list"
  tx :: "string list"
  has_timeout :: bool

definition readline :: "port \<Rightarrow> (string \<times> port) option" where
  "readline p =
     (case rx p of
        [] \<Rightarrow> (if has_timeout p then Some ([], p) else None)
      | l # ls \<Rightarrow> Some (l, p\<lparr>rx := ls\<rparr>))"

definition port_write :: "string \<Rightarrow> port \<Rightarrow> port" where
  "port_write s p = p\<lparr>tx := tx p @ [s]\<rparr>"

subsection \<open>Python string operations\<close>

text \<open>\<^verbatim>\<open>str.rstrip()\<close> without argument removes trailing ASCII whitespace.\<close>

definition is_space :: "char \<Rightarrow> bool" where
  "is_space c = (c \<in> set [CHR '' '', CHR 0x09, CHR 0x0A, CHR 0x0B, CHR 0x0C, CHR 0x0D])"

definition rstrip :: "string \<Rightarrow> string" where
  "rstrip s = rev (dropWhile is_space (rev s))"

definition startswith :: "string \<Rightarrow> string \<Rightarrow> bool" where
  "startswith s pre = (take (length pre) s = pre)"

text \<open>Truth value of an optional string argument: \<^verbatim>\<open>None\<close> and \<^verbatim>\<open>''\<close> are false.\<close>

definition truthy :: "string option \<Rightarrow> bool" where
  "truthy c = (case c of None \<Rightarrow> False | Some s \<Rightarrow> s \<noteq> [])"

section \<open>The Transactor: \<^verbatim>\<open>ModemPort.send\<close> and \<^verbatim>\<open>ModemPort.return_data\<close>\<close>

text \<open>
  \<^verbatim>\<open>errors.check_for_errors\<close> is not part of the source at hand; it is the parameter
  \<open>check\<close>, which answers \<open>Some e\<close> when it raises \<open>e\<close> on a line and \<open>None\<close> when it
  returns.

  The body of the loop of \<^verbatim>\<open>return_data\<close> after the test for \<^verbatim>\<open>'OK'\<close>: what is
  appended to \<^verbatim>\<open>data\<close>.
\<close>

definition retain :: "string option \<Rightarrow> string \<Rightarrow> string list \<Rightarrow> string list" where
  "retain command input_line data =
     (case command of
        Some c \<Rightarrow>
          (if c \<noteq> [] then
             (if startswith input_line c
              then data @ [drop (length c + 2) input_line]
              else data)
           else (if input_line \<noteq> [] then data @ [input_line] else data))
      | None \<Rightarrow> (if input_line \<noteq> [] then data @ [input_line] else data))"

text \<open>
  The \<^verbatim>\<open>while 1\<close> loop of \<^verbatim>\<open>return_data\<close>. It may read forever (a port with a
  timeout that never delivers \<^verbatim>\<open>OK\<close>) or block in a read; both are the value \<open>None\<close>.
  A result is the raised error or the returned list, with the port as the call left it.
\<close>

partial_function (option) return_data_loop ::
  "(string \<Rightarrow> error option) \<Rightarrow> string option \<Rightarrow> string list \<Rightarrow> port
     \<Rightarrow> ((error + string list) \<times> port) option" where
  [code]: "return_data_loop check command data p =
     (case readline p of
        None \<Rightarrow> None
      | Some (raw, p') \<Rightarrow>
          (case check (rstrip raw) of
             Some e \<Rightarrow> Some (Inl e, p')
           | None \<Rightarrow>
               if rstrip raw = ''OK'' then Some (Inr data, p')
               else return_data_loop check command (retain command (rstrip raw) data) p'))"

definition return_data ::
  "(string \<Rightarrow> error option) \<Rightarrow> string option \<Rightarrow> port
     \<Rightarrow> ((error + string list) \<times> port) option" where
  "return_data check command p = return_data_loop check command [] p"

text \<open>
  \<^verbatim>\<open>send(text, wait=True, at_cmd=None)\<close>. The Python function returns the list of
  \<^verbatim>\<open>return_data\<close> when \<^verbatim>\<open>wait\<close> is set and nothing (\<^verbatim>\<open>None\<close>) otherwise.
\<close>

definition send ::
  "(string \<Rightarrow> error option) \<Rightarrow> string \<Rightarrow> bool \<Rightarrow> string option \<Rightarrow> port
     \<Rightarrow> ((error + string list option) \<times> port) option" where
  "send check text wait at_cmd p =
     (let p1 = (if truthy at_cmd then port_write (''AT'' @ text @ [CHR 0x0D]) p else port_write text p)
      in case readline p1 of
           None \<Rightarrow> None
         | Some (input_line, p2) \<Rightarrow>
             (case check input_line of
                Some e \<Rightarrow> Some (Inl e, p2)
              | None \<Rightarrow>
                  if wait then
                    (case return_data check at_cmd p2 of
                       None \<Rightarrow> None
                     | Some (Inl e, p3) \<Rightarrow> Some (Inl e, p3)
                     | Some (Inr data, p3) \<Rightarrow> Some (Inr (Some data), p3))
                  else Some (Inr None, p2)))"

section \<open>The Interpreter's dispatch: \<^verbatim>\<open>Interpreter.interpret\<close>\<close>

text \<open>
  An action is called with the modem and the message; it may change the modem and may
  raise. A rule pairs a pattern, taken as the predicate \<^verbatim>\<open>pattern.search(message)\<close>, with
  an action. \<^verbatim>\<open>actions.no_match\<close> and the table \<^verbatim>\<open>actions.STANDARD_PATTERNS\<close> are not part
  of the source at hand: they are the parameters \<open>no_match\<close> and \<open>patterns\<close>.
  The \<^verbatim>\<open>for ... else\<close> loop calls the action of the first matching rule and breaks; the
  \<^verbatim>\<open>else\<close> branch runs when the loop ends without a \<^verbatim>\<open>break\<close>.
\<close>

type_synonym 'm action = "'m \<Rightarrow> string \<Rightarrow> (error + unit) \<times> 'm"

type_synonym 'm rule = "(string \<Rightarrow> bool) \<times> 'm action"

fun Interpreter_interpret :: "'m rule list \<Rightarrow> 'm action \<Rightarrow> 'm \<Rightarrow> string \<Rightarrow> (error + unit) \<times> 'm" where
  "Interpreter_interpret [] no_match modem message = no_match modem message"
| "Interpreter_interpret ((pattern, action) # patterns) no_match modem message =
     (if pattern message then action modem message
      else Interpreter_interpret patterns no_match modem message)"

section \<open>The Prober and its threads' shared objects\<close>

text \<open>
  The objects a \<^verbatim>\<open>Prober\<close> owns or reaches: its queue (oldest message first), the
  \<^verbatim>\<open>Interpreter\<close> and \<^verbatim>\<open>QueueFeeder\<close> objects it references (whether the attribute is
  set, and the object's \<^verbatim>\<open>active\<close> flag) and the modem's control port. The record also
  keeps the history of the effects on these objects, each with the thread that performed
  it, in the order they happened.
\<close>

datatype actor = FeederThread | InterpreterThread | CallerThread

datatype effect =
    ThreadStart actor
  | InterpreterActive bool
  | FeederActive bool
  | FeederSlot bool
  | QueuePut string
  | QueueGet string
  | CtrlWrite string
  | CtrlRead string
  | LockAcquire
  | LockRelease
  | Sleep nat
  | Dispatched string
  | ActionRaised string error

record prober =
  queue :: "string list"
  has_interpreter :: bool
  interpreter_active :: bool
  has_feeder :: bool
  feeder_active :: bool
  ctrl_port :: port
  effects :: "(actor \<times> effect) list"

definition record_effect :: "actor \<Rightarrow> effect \<Rightarrow> 'a prober_scheme \<Rightarrow> 'a prober_scheme" where
  "record_effect a e pr = pr\<lparr>effects := effects pr @ [(a, e)]\<rparr>"

text \<open>The single statements that act on the shared objects.\<close>

definition set_interpreter_active :: "actor \<Rightarrow> bool \<Rightarrow> 'a prober_scheme \<Rightarrow> 'a prober_scheme" where
  "set_interpreter_active a b pr = record_effect a (InterpreterActive b) (pr\<lparr>interpreter_active := b\<rparr>)"

definition set_feeder_active :: "actor \<Rightarrow> bool \<Rightarrow> 'a prober_scheme \<Rightarrow> 'a prober_scheme" where
  "set_feeder_active a b pr = record_effect a (FeederActive b) (pr\<lparr>feeder_active := b\<rparr>)"

definition set_feeder :: "actor \<Rightarrow> bool \<Rightarrow> 'a prober_scheme \<Rightarrow> 'a prober_scheme" where
  "set_feeder a b pr = record_effect a (FeederSlot b) (pr\<lparr>has_feeder := b\<rparr>)"

definition queue_put :: "actor \<Rightarrow> string \<Rightarrow> 'a prober_scheme \<Rightarrow> 'a prober_scheme" where
  "queue_put a m pr = record_effect a (QueuePut m) (pr\<lparr>queue := queue pr @ [m]\<rparr>)"

definition ctrl_write :: "actor \<Rightarrow> string \<Rightarrow> 'a prober_scheme \<Rightarrow> 'a prober_scheme" where
  "ctrl_write a s pr = record_effect a (CtrlWrite s) (pr\<lparr>ctrl_port := port_write s (ctrl_port pr)\<rparr>)"

subsection \<open>\<^verbatim>\<open>Prober.__init__\<close>, \<^verbatim>\<open>start\<close> and \<^verbatim>\<open>stop\<close>, as the calling thread runs them\<close>

text \<open>
  The message of the \<^verbatim>\<open>AttributeError\<close> that \<^verbatim>\<open>self._interpreter.active = False\<close> raises
  when \<^verbatim>\<open>self._interpreter\<close> is \<^verbatim>\<open>None\<close>.
\<close>

definition none_has_no_active :: string where
  "none_has_no_active =
     [CHR 0x27] @ ''NoneType'' @ [CHR 0x27] @ '' object has no attribute ''
     @ [CHR 0x27] @ ''active'' @ [CHR 0x27]"

definition Prober_init :: "port \<Rightarrow> prober" where
  "Prober_init ctrl =
     \<lparr>queue = [], has_interpreter = False, interpreter_active = False,
      has_feeder = False, feeder_active = False, ctrl_port = ctrl, effects = []\<rparr>"

definition stop_interpreter :: "'a prober_scheme \<Rightarrow> error + 'a prober_scheme" where
  "stop_interpreter pr =
     (if has_interpreter pr
      then Inr (queue_put CallerThread [] (set_interpreter_active CallerThread False pr))
      else Inl (AttributeError none_has_no_active))"

definition start_interpreter :: "'a prober_scheme \<Rightarrow> 'a prober_scheme" where
  "start_interpreter pr =
     record_effect CallerThread (ThreadStart InterpreterThread)
       (pr\<lparr>has_interpreter := True, interpreter_active := True\<rparr>)"

definition QueueFeeder_stop :: "'a prober_scheme \<Rightarrow> 'a prober_scheme" where
  "QueueFeeder_stop pr =
     ctrl_write CallerThread [CHR 0x0D, CHR 0x0A] (set_feeder_active CallerThread False pr)"

definition Prober_start :: "'a prober_scheme \<Rightarrow> error + 'a prober_scheme" where
  "Prober_start pr =
     (if has_feeder pr then Inl (HumodUsageError ''Prober already started.'')
      else Inr (start_interpreter
                 (record_effect CallerThread (ThreadStart FeederThread)
                   (set_feeder CallerThread True (pr\<lparr>feeder_active := True\<rparr>)))))"

definition Prober_stop :: "'a prober_scheme \<Rightarrow> error + 'a prober_scheme" where
  "Prober_stop pr =
     (if has_feeder pr then
        (case stop_interpreter pr of
           Inl e \<Rightarrow> Inl e
         | Inr pr1 \<Rightarrow> Inr (set_feeder CallerThread False (QueueFeeder_stop pr1)))
      else Inl (HumodUsageError ''Prober not started.''))"

section \<open>\<^verbatim>\<open>Modem.connect\<close> and \<^verbatim>\<open>Modem.disconnect\<close>\<close>

text \<open>
  The modem object as \<^verbatim>\<open>connect\<close> and \<^verbatim>\<open>disconnect\<close> use it: the data port, the
  process id of pppd and the signals sent with \<^verbatim>\<open>os.kill\<close>. The model does not track
  whether a port is open: \<^verbatim>\<open>data_port.open()\<close> leaves \<open>rx\<close> and \<open>tx\<close> as they are.
  \<^verbatim>\<open>os.fork()\<close> is the parameter \<open>pid\<close>, the value it returns in the process at hand
  (0 in the child); \<^verbatim>\<open>os.execv\<close> either replaces the process, so that \<^verbatim>\<open>connect\<close> never
  returns there, or fails, which is the parameter \<open>execv_ok\<close>.
\<close>

record modem =
  data_port :: port
  pppd_pid :: "nat option"
  signals :: "(nat \<times> nat) list"

definition dial_num :: string where
  "dial_num = ''*99#''"

definition pid_truthy :: "nat option \<Rightarrow> bool" where
  "pid_truthy v = (case v of None \<Rightarrow> False | Some n \<Rightarrow> n \<noteq> 0)"

definition connect ::
  "(string \<Rightarrow> error option) \<Rightarrow> nat \<Rightarrow> bool \<Rightarrow> modem \<Rightarrow> ((error + unit) \<times> modem) option" where
  "connect check pid execv_ok m =
     (if \<not> pid_truthy (pppd_pid m) then
        (case send check (''ATZ'' @ [CHR 0x0D]) True None (data_port m) of
           None \<Rightarrow> None
         | Some (Inl e, p1) \<Rightarrow> Some (Inl e, m\<lparr>data_port := p1\<rparr>)
         | Some (Inr _, p1) \<Rightarrow>
             (case send check (''ATDT'' @ dial_num @ [CHR 0x0D]) False None p1 of
                None \<Rightarrow> None
              | Some (Inl e, p2) \<Rightarrow> Some (Inl e, m\<lparr>data_port := p2\<rparr>)
              | Some (Inr _, p2) \<Rightarrow>
                  (case readline p2 of
                     None \<Rightarrow> None
                   | Some (status, p3) \<Rightarrow>
                       if startswith status ''CONNECT'' then
                         (if pid \<noteq> 0 then Some (Inr (), m\<lparr>data_port := p3, pppd_pid := Some pid\<rparr>)
                          else if execv_ok then None
                          else Some (Inl (PppdError ''An error while starting pppd.''),
                                     m\<lparr>data_port := p3\<rparr>))
                       else Some (Inr (), m\<lparr>data_port := p3\<rparr>))))
      else Some (Inl (HumodUsageError ''Modem is already connected.''), m))"

definition disconnect :: "modem \<Rightarrow> error + modem" where
  "disconnect m =
     (case pppd_pid m of
        Some pid \<Rightarrow>
          (if pid \<noteq> 0 then Inr (m\<lparr>signals := signals m @ [(pid, 15)], pppd_pid := None\<rparr>)
           else Inl (HumodUsageError ''Not connected.''))
      | None \<Rightarrow> Inl (HumodUsageError ''Not connected.''))"

section \<open>The threads of one started Prober\<close>

text \<open>
  \<^verbatim>\<open>QueueFeeder.run\<close>, \<^verbatim>\<open>Interpreter.run\<close> and a caller of \<^verbatim>\<open>Prober.stop\<close> run
  concurrently on the shared objects. Each thread is modelled by its program counter and a
  step function that performs one statement's effect on the shared state; a step is
  \<open>None\<close> when the thread cannot move (it waits for the lock or for a message, or it
  has ended). A schedule chooses which thread moves next, and when a line from the device
  arrives on the control port.

  Program counters of \<^verbatim>\<open>QueueFeeder.run\<close>: the loop test, \<^verbatim>\<open>acquire\<close>, \<^verbatim>\<open>readline\<close>,
  \<^verbatim>\<open>put\<close> (of the line read), \<^verbatim>\<open>release\<close>, \<^verbatim>\<open>sleep\<close>, and the end of the loop.
\<close>

datatype fpc = F_Test | F_Acquire | F_Read | F_Put string | F_Release | F_Sleep | F_Done

text \<open>
  Program counters of \<^verbatim>\<open>Interpreter.run\<close>: the loop test, \<^verbatim>\<open>queue.get()\<close>,
  \<^verbatim>\<open>interpret\<close> (of the message got), the end of the loop, and the thread ended by an
  exception that \<^verbatim>\<open>interpret\<close> let through.
\<close>

datatype ipc = I_Test | I_Get | I_Interpret string | I_Done | I_Dead error

text \<open>Program counters of a caller running \<^verbatim>\<open>Prober.stop\<close>, one per statement.\<close>

datatype cpc =
    C_Call | C_InterpreterFlag | C_Sentinel | C_FeederFlag | C_Unblock | C_Clear
  | C_Returned | C_Raised error

record 'm sys = prober +
  lock :: bool
  i_modem :: 'm
  f_pc :: fpc
  i_pc :: ipc
  c_pc :: cpc

text \<open>
  \<^verbatim>\<open>QueueFeeder.run\<close>. The idle time of \<^verbatim>\<open>time.sleep(.1)\<close> is recorded in milliseconds.
  The port model has no failing read, so the \<^verbatim>\<open>finally\<close> clause runs after the
  \<^verbatim>\<open>put\<close>.
\<close>

definition feeder_step :: "'m sys \<Rightarrow> 'm sys option" where
  "feeder_step s =
     (case f_pc s of
        F_Test \<Rightarrow> Some (if feeder_active s then s\<lparr>f_pc := F_Acquire\<rparr> else s\<lparr>f_pc := F_Done\<rparr>)
      | F_Acquire \<Rightarrow>
          (if lock s then None
           else Some (record_effect FeederThread LockAcquire (s\<lparr>lock := True, f_pc := F_Read\<rparr>)))
      | F_Read \<Rightarrow>
          (case readline (ctrl_port s) of
             None \<Rightarrow> None
           | Some (input_line, p') \<Rightarrow>
               Some (record_effect FeederThread (CtrlRead input_line)
                       (s\<lparr>ctrl_port := p', f_pc := F_Put input_line\<rparr>)))
      | F_Put input_line \<Rightarrow> Some ((queue_put FeederThread input_line s)\<lparr>f_pc := F_Release\<rparr>)
      | F_Release \<Rightarrow>
          Some (record_effect FeederThread LockRelease (s\<lparr>lock := False, f_pc := F_Sleep\<rparr>))
      | F_Sleep \<Rightarrow> Some (record_effect FeederThread (Sleep 100) (s\<lparr>f_pc := F_Test\<rparr>))
      | F_Done \<Rightarrow> None)"

text \<open>
  \<^verbatim>\<open>Interpreter.run\<close>: \<^verbatim>\<open>while self.active: self.interpret(self.queue.get())\<close>. The
  loop has no exception handler: an error raised by an action ends the thread.
\<close>

definition interpreter_step :: "'m rule list \<Rightarrow> 'm action \<Rightarrow> 'm sys \<Rightarrow> 'm sys option" where
  "interpreter_step patterns no_match s =
     (case i_pc s of
        I_Test \<Rightarrow> Some (if interpreter_active s then s\<lparr>i_pc := I_Get\<rparr> else s\<lparr>i_pc := I_Done\<rparr>)
      | I_Get \<Rightarrow>
          (case queue s of
             [] \<Rightarrow> None
           | message # q \<Rightarrow>
               Some (record_effect InterpreterThread (QueueGet message)
                       (s\<lparr>queue := q, i_pc := I_Interpret message\<rparr>)))
      | I_Interpret message \<Rightarrow>
          (case Interpreter_interpret patterns no_match (i_modem s) message of
             (Inr _, modem') \<Rightarrow>
               Some (record_effect InterpreterThread (Dispatched message)
                       (s\<lparr>i_modem := modem', i_pc := I_Test\<rparr>))
           | (Inl e, modem') \<Rightarrow>
               Some (record_effect InterpreterThread (ActionRaised message e)
                       (s\<lparr>i_modem := modem', i_pc := I_Dead e\<rparr>)))
      | I_Done \<Rightarrow> None
      | I_Dead e \<Rightarrow> None)"

text \<open>
  A caller running \<^verbatim>\<open>Prober.stop\<close>: the test of \<^verbatim>\<open>self._feeder\<close>, the two statements
  of \<^verbatim>\<open>_stop_interpreter\<close>, the two statements of \<^verbatim>\<open>QueueFeeder.stop\<close>, and
  \<^verbatim>\<open>self._feeder = None\<close>.
\<close>

definition caller_step :: "'m sys \<Rightarrow> 'm sys option" where
  "caller_step s =
     (case c_pc s of
        C_Call \<Rightarrow>
          Some (if has_feeder s then s\<lparr>c_pc := C_InterpreterFlag\<rparr>
                else s\<lparr>c_pc := C_Raised (HumodUsageError ''Prober not started.'')\<rparr>)
      | C_InterpreterFlag \<Rightarrow>
          Some (if has_interpreter s
                then (set_interpreter_active CallerThread False s)\<lparr>c_pc := C_Sentinel\<rparr>
                else s\<lparr>c_pc := C_Raised (AttributeError none_has_no_active)\<rparr>)
      | C_Sentinel \<Rightarrow> Some ((queue_put CallerThread [] s)\<lparr>c_pc := C_FeederFlag\<rparr>)
      | C_FeederFlag \<Rightarrow> Some ((set_feeder_active CallerThread False s)\<lparr>c_pc := C_Unblock\<rparr>)
      | C_Unblock \<Rightarrow>
          Some ((ctrl_write CallerThread [CHR 0x0D, CHR 0x0A] s)\<lparr>c_pc := C_Clear\<rparr>)
      | C_Clear \<Rightarrow> Some ((set_feeder CallerThread False s)\<lparr>c_pc := C_Returned\<rparr>)
      | C_Returned \<Rightarrow> None
      | C_Raised e \<Rightarrow> None)"

text \<open>
  One entry of a schedule: a thread is given a turn (a thread that cannot move leaves the
  state as it is), or the device delivers a line on the control port.
\<close>

datatype turn = Feeder | Interpreter | Caller | Arrive string

definition step :: "'m rule list \<Rightarrow> 'm action \<Rightarrow> turn \<Rightarrow> 'm sys \<Rightarrow> 'm sys" where
  "step patterns no_match t s =
     (case t of
        Feeder \<Rightarrow> (case feeder_step s of None \<Rightarrow> s | Some s' \<Rightarrow> s')
      | Interpreter \<Rightarrow> (case interpreter_step patterns no_match s of None \<Rightarrow> s | Some s' \<Rightarrow> s')
      | Caller \<Rightarrow> (case caller_step s of None \<Rightarrow> s | Some s' \<Rightarrow> s')
      | Arrive l \<Rightarrow> s\<lparr>ctrl_port := (ctrl_port s)\<lparr>rx := rx (ctrl_port s) @ [l]\<rparr>\<rparr>)"

definition exec :: "'m rule list \<Rightarrow> 'm action \<Rightarrow> turn list \<Rightarrow> 'm sys \<Rightarrow> 'm sys" where
  "exec patterns no_match sched s = foldl (\<lambda>s' t. step patterns no_match t s') s sched"

text \<open>
  The state right after \<^verbatim>\<open>Prober(modem).start()\<close>: both threads at their loop tests,
  the lock free, the caller not yet in \<^verbatim>\<open>stop\<close>.
\<close>

definition started :: "port \<Rightarrow> 'm \<Rightarrow> 'm sys" where
  "started ctrl m =
     \<lparr>queue = [], has_interpreter = True, interpreter_active = True,
      has_feeder = True, feeder_active = True, ctrl_port = ctrl,
      effects = [(CallerThread, FeederSlot True), (CallerThread, ThreadStart FeederThread),
                 (CallerThread, ThreadStart InterpreterThread)],
      lock = False, i_modem = m, f_pc = F_Test, i_pc = I_Test, c_pc = C_Call\<rparr>"

text \<open>Projections of the history.\<close>

definition put_msgs :: "(actor \<times> effect) list \<Rightarrow> string list" where
  "put_msgs h = concat (map (\<lambda>(a, e). case e of QueuePut m \<Rightarrow> [m] | _ \<Rightarrow> []) h)"

definition got_msgs :: "(actor \<times> effect) list \<Rightarrow> string list" where
  "got_msgs h = concat (map (\<lambda>(a, e). case e of QueueGet m \<Rightarrow> [m] | _ \<Rightarrow> []) h)"

definition dispatched_msgs :: "(actor \<times> effect) list \<Rightarrow> string list" where
  "dispatched_msgs h =
     concat (map (\<lambda>(a, e). case e of Dispatched m \<Rightarrow> [m] | ActionRaised m x \<Rightarrow> [m] | _ \<Rightarrow> []) h)"

definition by_actor :: "actor \<Rightarrow> (actor \<times> effect) list \<Rightarrow> effect list" where
  "by_actor a h = map snd (filter (\<lambda>(b, e). b = a) h)"

text \<open>What one full iteration of the feeder's loop does with the line \<open>l\<close> it reads.\<close>

definition feeder_iteration :: "string \<Rightarrow> effect list" where
  "feeder_iteration l = [LockAcquire, CtrlRead l, QueuePut l, LockRelease, Sleep 100]"

text \<open>The history from the moment the caller cleared the interpreter's flag.\<close>

definition after_flag :: "(actor \<times> effect) list \<Rightarrow> (actor \<times> effect) list" where
  "after_flag h = dropWhile (\<lambda>x. x \<noteq> (CallerThread, InterpreterActive False)) h"



text \<open>The program counters of the feeder between \<^verbatim>\<open>acquire\<close> and \<^verbatim>\<open>release\<close>.\<close>

definition feeder_holds :: "fpc \<Rightarrow> bool" where
  "feeder_holds pc = (case pc of F_Read \<Rightarrow> True | F_Put l \<Rightarrow> True | F_Release \<Rightarrow> True | _ \<Rightarrow> False)"

text \<open>The part of the current iteration the feeder has done, by its program counter; \<open>l\<close> is
  the line of the iteration where the program counter does not carry it.\<close>

definition feeder_partial :: "fpc \<Rightarrow> string \<Rightarrow> effect list" where
  "feeder_partial pc l =
     (case pc of
        F_Read \<Rightarrow> take 1 (feeder_iteration l)
      | F_Put l' \<Rightarrow> take 2 (feeder_iteration l')
      | F_Release \<Rightarrow> take 3 (feeder_iteration l)
      | F_Sleep \<Rightarrow> take 4 (feeder_iteration l)
      | _ \<Rightarrow> [])"

text \<open>Invariant: the lock is held exactly between \<^verbatim>\<open>acquire\<close> and \<^verbatim>\<open>release\<close>, and the
  feeder's history is a sequence of full iterations followed by the started one.\<close>

definition feeder_inv :: "'m sys \<Rightarrow> bool" where
  "feeder_inv s =
     (lock s = feeder_holds (f_pc s)
      \<and> (\<exists>ls l. by_actor FeederThread (effects s)
                  = concat (map feeder_iteration ls) @ feeder_partial (f_pc s) l))"

text \<open>Whether the interpreter is past its loop test with a dispatch still to complete.\<close>

definition pending :: "ipc \<Rightarrow> nat" where
  "pending pc = (case pc of I_Get \<Rightarrow> 1 | I_Interpret m \<Rightarrow> 1 | _ \<Rightarrow> 0)"

text \<open>How many statements of \<^verbatim>\<open>stop\<close> that act on shared objects the caller has run.\<close>

definition stop_progress :: "cpc \<Rightarrow> nat" where
  "stop_progress pc =
     (case pc of
        C_Sentinel \<Rightarrow> 1 | C_FeederFlag \<Rightarrow> 2 | C_Unblock \<Rightarrow> 3 | C_Clear \<Rightarrow> 4 | C_Returned \<Rightarrow> 5
      | _ \<Rightarrow> 0)"

text \<open>The effects of \<^verbatim>\<open>Prober.start\<close>, which precede the state \<open>started\<close>.\<close>

definition start_effects :: "effect list" where
  "start_effects = [FeederSlot True, ThreadStart FeederThread, ThreadStart InterpreterThread]"

text \<open>The effects of \<^verbatim>\<open>Prober.stop\<close>, in program order.\<close>

definition stop_effects :: "effect list" where
  "stop_effects =
     [InterpreterActive False, QueuePut [], FeederActive False,
      CtrlWrite [CHR 0x0D, CHR 0x0A], FeederSlot False]"

text \<open>Invariant: the caller's history is that of \<^verbatim>\<open>start\<close> and of the statements of \<^verbatim>\<open>stop\<close>
  run so far; once the interpreter's flag is cleared it stays cleared, and the dispatches since
  then plus the one still to complete are at most one.\<close>

definition stop_inv :: "'m sys \<Rightarrow> bool" where
  "stop_inv s =
     (by_actor CallerThread (effects s)
        = start_effects @ take (stop_progress (c_pc s)) stop_effects
      \<and> (stop_progress (c_pc s) = 0
            \<longrightarrow> (CallerThread, InterpreterActive False) \<notin> set (effects s))
      \<and> (stop_progress (c_pc s) \<noteq> 0
            \<longrightarrow> (CallerThread, InterpreterActive False) \<in> set (effects s)
                \<and> \<not> interpreter_active s
                \<and> length (dispatched_msgs (after_flag (effects s))) + pending (i_pc s) \<le> 1))"

text \<open>The interpreter is between two dispatches or has left its loop.\<close>

definition interpreter_ended :: "ipc \<Rightarrow> bool" where
  "interpreter_ended pc = (case pc of I_Test \<Rightarrow> True | I_Done \<Rightarrow> True | I_Dead e \<Rightarrow> True | _ \<Rightarrow> False)"

subsection \<open>Example inputs\<close>

text \<open>
  Concrete inputs for the executions evaluated below: a control port with a timeout and
  nothing to deliver, one with two lines pending, a classifier that raises on the line
  \<^verbatim>\<open>ERROR\<close> only, a default action that does nothing, and a rule table whose one action
  raises on a message that starts with \<^verbatim>\<open>RING\<close>.
\<close>

definition example_ctrl :: port where
  "example_ctrl = \<lparr>rx = [], tx = [], has_timeout = True\<rparr>"

definition example_ctrl_pending :: port where
  "example_ctrl_pending = \<lparr>rx = [''RING'', ''BUSY''], tx = [], has_timeout = True\<rparr>"

definition example_check :: "string \<Rightarrow> error option" where
  "example_check = (\<lambda>s. if s = ''ERROR'' then Some (AtCommandError s) else None)"

definition example_no_match :: "unit action" where
  "example_no_match = (\<lambda>s m. (Inr (), s))"

definition example_rules :: "unit rule list" where
  "example_rules = [(\<lambda>m. startswith m ''RING'', \<lambda>s m. (Inl (AtCommandError ''boom''), s))]"

section \<open>Properties of the Transactor\<close>

lemma return_data_loop_Cons:
  "return_data_loop check command data (p\<lparr>rx := l # ls\<rparr>) =
     (case check (rstrip l) of
        Some e \<Rightarrow> Some (Inl e, p\<lparr>rx := ls\<rparr>)
      | None \<Rightarrow>
          if rstrip l = ''OK'' then Some (Inr data, p\<lparr>rx := ls\<rparr>)
          else return_data_loop check command (retain command (rstrip l) data) (p\<lparr>rx := ls\<rparr>))"
  by (subst return_data_loop.simps) (simp add: readline_def)

lemma return_data_loop_skip:
  "\<forall>x\<in>set pre. check (rstrip x) = None \<and> rstrip x \<noteq> ''OK'' \<Longrightarrow>
   return_data_loop check command data (p\<lparr>rx := pre @ ls\<rparr>) =
   return_data_loop check command (foldl (\<lambda>d x. retain command (rstrip x) d) data pre) (p\<lparr>rx := ls\<rparr>)"
proof (induction pre arbitrary: data p)
  case Nil
  then show ?case by simp
next
  case (Cons x pre)
  have "return_data_loop check command data (p\<lparr>rx := (x # pre) @ ls\<rparr>) =
        return_data_loop check command (retain command (rstrip x) data) (p\<lparr>rx := pre @ ls\<rparr>)"
    using Cons.prems by (simp add: return_data_loop_Cons)
  also have "\<dots> = return_data_loop check command
        (foldl (\<lambda>d x. retain command (rstrip x) d) (retain command (rstrip x) data) pre) (p\<lparr>rx := ls\<rparr>)"
    using Cons.IH [of "retain command (rstrip x) data" p] Cons.prems by simp
  finally show ?case by simp
qed

lemma foldl_retain_no_prefix:
  "\<not> truthy command \<Longrightarrow>
   foldl (\<lambda>d x. retain command (rstrip x) d) data pre = data @ filter (\<lambda>s. s \<noteq> []) (map rstrip pre)"
  by (induction pre arbitrary: data) (auto simp: retain_def truthy_def split: option.splits)

lemma send_Cons:
  "send check payload wait at_cmd (p\<lparr>rx := echo # rest\<rparr>) =
     (case check echo of
        Some e \<Rightarrow> Some (Inl e, (if truthy at_cmd then port_write (''AT'' @ payload @ [CHR 0x0D]) p
                                 else port_write payload p)\<lparr>rx := rest\<rparr>)
      | None \<Rightarrow>
          if wait then
            (case return_data check at_cmd
                    ((if truthy at_cmd then port_write (''AT'' @ payload @ [CHR 0x0D]) p
                      else port_write payload p)\<lparr>rx := rest\<rparr>) of
               None \<Rightarrow> None
             | Some (Inl e, p3) \<Rightarrow> Some (Inl e, p3)
             | Some (Inr data, p3) \<Rightarrow> Some (Inr (Some data), p3))
          else Some (Inr None, (if truthy at_cmd then port_write (''AT'' @ payload @ [CHR 0x0D]) p
                                else port_write payload p)\<lparr>rx := rest\<rparr>))"
  by (auto simp: send_def readline_def port_write_def Let_def split: option.split)

text \<open>
  Claim C1. Every line \<^verbatim>\<open>return_data\<close> reads is checked for an error first, after
  right-stripping: when the lines read before \<open>l\<close> are neither errors nor the terminator and
  \<open>l\<close> is an error (whatever else it is: the terminator, a line with the command's prefix),
  the call raises that error, leaves the lines after \<open>l\<close> unread and returns no data, whatever
  was collected from the earlier lines. \<^verbatim>\<open>send\<close> checks the echoed line the same way before
  it reads anything else, and passes on the error of \<^verbatim>\<open>return_data\<close>.
\<close>

theorem transactor_error_abort:
  assumes err: "check (rstrip l) = Some e"
    and pre: "\<forall>x\<in>set pre. check (rstrip x) = None \<and> rstrip x \<noteq> ''OK''"
    and echo_err: "check echo_bad = Some e_echo"
    and echo_ok: "check echo_good = None"
  shows "return_data check command (p\<lparr>rx := pre @ l # rest\<rparr>) = Some (Inl e, p\<lparr>rx := rest\<rparr>)
       \<and> send check payload wait at_cmd (p\<lparr>rx := echo_bad # rest\<rparr>) =
           Some (Inl e_echo, (if truthy at_cmd then port_write (''AT'' @ payload @ [CHR 0x0D]) p
                          else port_write payload p)\<lparr>rx := rest\<rparr>)
       \<and> send check payload True at_cmd (p\<lparr>rx := echo_good # pre @ l # rest\<rparr>) =
           Some (Inl e, (if truthy at_cmd then port_write (''AT'' @ payload @ [CHR 0x0D]) p
                         else port_write payload p)\<lparr>rx := rest\<rparr>)"
proof -
  have loop: "return_data check command (q\<lparr>rx := pre @ l # rest\<rparr>) = Some (Inl e, q\<lparr>rx := rest\<rparr>)"
    for q command
    unfolding return_data_def
    by (simp add: return_data_loop_skip [OF pre] return_data_loop_Cons err)
  have s1: "send check payload wait at_cmd (p\<lparr>rx := echo_bad # rest\<rparr>) =
           Some (Inl e_echo, (if truthy at_cmd then port_write (''AT'' @ payload @ [CHR 0x0D]) p
                          else port_write payload p)\<lparr>rx := rest\<rparr>)"
    by (simp add: send_Cons echo_err)
  have s2: "send check payload True at_cmd (p\<lparr>rx := echo_good # pre @ l # rest\<rparr>) =
           Some (Inl e, (if truthy at_cmd then port_write (''AT'' @ payload @ [CHR 0x0D]) p
                         else port_write payload p)\<lparr>rx := rest\<rparr>)"
    using loop [where q = "port_write (''AT'' @ payload @ [CHR 0x0D]) p" and command = at_cmd]
          loop [where q = "port_write payload p" and command = at_cmd]
    by (simp add: send_Cons echo_ok)
  from loop s1 s2 show ?thesis by blast
qed

theorem transactor_error_abort_witness:
  "return_data (\<lambda>s. if s = ''+CME ERROR: 3'' then Some (AtCommandError s) else None) (Some ''+CSQ'')
     \<lparr>rx = [''+CSQ: 5,99'', ''+CME ERROR: 3'', ''OK''], tx = [], has_timeout = False\<rparr>
     = Some (Inl (AtCommandError ''+CME ERROR: 3''), \<lparr>rx = [''OK''], tx = [], has_timeout = False\<rparr>)
   \<and> send (\<lambda>s. if s = ''+CME ERROR: 3'' then Some (AtCommandError s) else None) ''+CSQ'' True (Some ''+CSQ'')
     \<lparr>rx = [''+CME ERROR: 3'', ''OK''], tx = [], has_timeout = False\<rparr>
     = Some (Inl (AtCommandError ''+CME ERROR: 3''),
             \<lparr>rx = [''OK''], tx = [''AT+CSQ'' @ [CHR 0x0D]], has_timeout = False\<rparr>)
   \<and> send (\<lambda>s. if s = ''+CME ERROR: 3'' then Some (AtCommandError s) else None) ''+CSQ'' True (Some ''+CSQ'')
     \<lparr>rx = [''AT+CSQ'', ''+CSQ: 5,99'', ''+CME ERROR: 3'', ''OK''], tx = [], has_timeout = False\<rparr>
     = Some (Inl (AtCommandError ''+CME ERROR: 3''),
             \<lparr>rx = [''OK''], tx = [''AT+CSQ'' @ [CHR 0x0D]], has_timeout = False\<rparr>)"
  using transactor_error_abort
    [where check = "\<lambda>s. if s = ''+CME ERROR: 3'' then Some (AtCommandError s) else None"
       and l = "''+CME ERROR: 3''" and e = "AtCommandError ''+CME ERROR: 3''"
       and pre = "[''+CSQ: 5,99'']"
       and echo_bad = "''+CME ERROR: 3''" and e_echo = "AtCommandError ''+CME ERROR: 3''"
       and echo_good = "''AT+CSQ''" and command = "Some ''+CSQ''"
       and p = "\<lparr>rx = [], tx = [], has_timeout = False\<rparr>" and rest = "[''OK'']"
       and payload = "''+CSQ''" and wait = True and at_cmd = "Some ''+CSQ''"]
  by (simp add: rstrip_def is_space_def truthy_def port_write_def)

text \<open>
  Claim C8. (as amended) Without a command prefix (\<^verbatim>\<open>None\<close> or the empty string),
  \<^verbatim>\<open>return_data\<close> strips trailing whitespace from every line it reads and returns, in
  order, the stripped lines read before the terminator that are not empty; lines that are
  empty after stripping are dropped; the line that strips to \<^verbatim>\<open>OK\<close> ends the loop, is
  not part of the result, and nothing after it is read.
  The witness is the stream \<^verbatim>\<open>["hello", "", "world", "OK"]\<close> with the result
  \<^verbatim>\<open>["hello", "world"]\<close>.
\<close>

theorem transactor_no_prefix_mode:
  assumes no_prefix: "\<not> truthy command"
    and pre: "\<forall>x\<in>set pre. check (rstrip x) = None \<and> rstrip x \<noteq> ''OK''"
    and ok: "rstrip l = ''OK''"
    and ok_no_error: "check ''OK'' = None"
  shows "return_data check command (p\<lparr>rx := pre @ l # rest\<rparr>) =
           Some (Inr (filter (\<lambda>s. s \<noteq> []) (map rstrip pre)), p\<lparr>rx := rest\<rparr>)"
  unfolding return_data_def
  by (simp add: return_data_loop_skip [OF pre] return_data_loop_Cons ok ok_no_error
      foldl_retain_no_prefix [OF no_prefix])

theorem transactor_no_prefix_mode_witness:
  "return_data (\<lambda>s. if s = ''ERROR'' then Some (AtCommandError s) else None) None
     \<lparr>rx = [''hello'', '''', ''world'', ''OK''], tx = [], has_timeout = False\<rparr>
     = Some (Inr [''hello'', ''world''], \<lparr>rx = [], tx = [], has_timeout = False\<rparr>)"
  using transactor_no_prefix_mode
    [where check = "\<lambda>s. if s = ''ERROR'' then Some (AtCommandError s) else None"
       and command = None and pre = "[''hello'', '''', ''world'']" and l = "''OK''"
       and rest = "[]" and p = "\<lparr>rx = [], tx = [], has_timeout = False\<rparr>"]
  by (simp add: rstrip_def is_space_def truthy_def)

text \<open>
  The lines are not retained verbatim: on \<^verbatim>\<open>["hello  ", "   ", "OK"]\<close> the first line
  comes back without its trailing blanks and the second, which is not empty, is dropped.
\<close>

theorem transactor_no_prefix_verbatim_counterexample:
  "return_data example_check None
     \<lparr>rx = [''hello  '', ''   '', ''OK''], tx = [], has_timeout = False\<rparr>
     = Some (Inr [''hello''], \<lparr>rx = [], tx = [], has_timeout = False\<rparr>)
   \<and> return_data example_check None
     \<lparr>rx = [''hello  '', ''   '', ''OK''], tx = [], has_timeout = False\<rparr>
     \<noteq> Some (Inr [''hello  '', ''   ''], \<lparr>rx = [], tx = [], has_timeout = False\<rparr>)"
  by code_simp

text \<open>
  Claim C2. With the command prefix \<^verbatim>\<open>+CSQ\<close>, \<^verbatim>\<open>return_data\<close> tests
  \<^verbatim>\<open>startswith(command)\<close> only and then cuts \<^verbatim>\<open>len(command)+2\<close> characters: the line
  \<^verbatim>\<open>+CSQ:5,99\<close>, which does not begin with \<^verbatim>\<open>+CSQ: \<close>, is retained as \<^verbatim>\<open>,99\<close>
  instead of being discarded. On the stream \<^verbatim>\<open>["+CSQ: 5,99", "garbage", "OK"]\<close> the result
  is \<^verbatim>\<open>["5,99"]\<close>. The classifier here is the one that raises on no line.
\<close>

theorem transactor_prefix_without_separator:
  "return_data (\<lambda>s. None) (Some ''+CSQ'') (p\<lparr>rx := [''+CSQ:5,99'', ''OK'']\<rparr>)
     = Some (Inr ['',99''], p\<lparr>rx := []\<rparr>)
   \<and> return_data (\<lambda>s. None) (Some ''+CSQ'') (p\<lparr>rx := [''+CSQ: 5,99'', ''garbage'', ''OK'']\<rparr>)
     = Some (Inr [''5,99''], p\<lparr>rx := []\<rparr>)"
  by (simp add: return_data_def return_data_loop_Cons rstrip_def is_space_def retain_def
      startswith_def)

text \<open>
  Claim C10. For every payload, \<^verbatim>\<open>send\<close> with \<^verbatim>\<open>wait=False\<close> writes the
  payload (framed as \<^verbatim>\<open>AT...\<close> and a carriage return when \<^verbatim>\<open>at_cmd\<close> is set), reads one
  line, raises the classified error when that line is one, and otherwise returns
  \<^verbatim>\<open>None\<close>: no list is produced and the lines after the echo stay unread.
\<close>

theorem send_without_wait:
  "send check payload False at_cmd p =
     (case readline (if truthy at_cmd then port_write (''AT'' @ payload @ [CHR 0x0D]) p
                     else port_write payload p) of
        None \<Rightarrow> None
      | Some (input_line, p2) \<Rightarrow>
          Some (case check input_line of Some e \<Rightarrow> Inl e | None \<Rightarrow> Inr None, p2))
   \<and> send check payload False at_cmd (p\<lparr>rx := echo # rest\<rparr>) =
       Some (case check echo of Some e \<Rightarrow> Inl e | None \<Rightarrow> Inr None,
             p\<lparr>rx := rest,
               tx := tx p @ [if truthy at_cmd then ''AT'' @ payload @ [CHR 0x0D] else payload]\<rparr>)"
  by (auto simp: send_def readline_def port_write_def Let_def split: option.split list.split)

theorem send_without_wait_witness:
  "send (\<lambda>s. if s = ''NO CARRIER'' then Some (AtCommandError s) else None)
        (''ATDT*99#'' @ [CHR 0x0D]) False None
        \<lparr>rx = [''NO CARRIER'', ''OK''], tx = [], has_timeout = False\<rparr>
     = Some (Inl (AtCommandError ''NO CARRIER''),
             \<lparr>rx = [''OK''], tx = [''ATDT*99#'' @ [CHR 0x0D]], has_timeout = False\<rparr>)
   \<and> send (\<lambda>s. if s = ''NO CARRIER'' then Some (AtCommandError s) else None)
        (''ATDT*99#'' @ [CHR 0x0D]) False None
        \<lparr>rx = [''ATDT*99#'', ''CONNECT''], tx = [], has_timeout = False\<rparr>
     = Some (Inr None,
             \<lparr>rx = [''CONNECT''], tx = [''ATDT*99#'' @ [CHR 0x0D]], has_timeout = False\<rparr>)"
  using send_without_wait
    [where check = "\<lambda>s. if s = ''NO CARRIER'' then Some (AtCommandError s) else None"
       and payload = "''ATDT*99#'' @ [CHR 0x0D]" and at_cmd = None
       and p = "\<lparr>rx = [], tx = [], has_timeout = False\<rparr>"
       and echo = "''NO CARRIER''" and rest = "[''OK'']"]
    send_without_wait
    [where check = "\<lambda>s. if s = ''NO CARRIER'' then Some (AtCommandError s) else None"
       and payload = "''ATDT*99#'' @ [CHR 0x0D]" and at_cmd = None
       and p = "\<lparr>rx = [], tx = [], has_timeout = False\<rparr>"
       and echo = "''ATDT*99#''" and rest = "[''CONNECT'']"]
  by (simp add: truthy_def)

section \<open>Properties of the dispatch\<close>

lemma interpret_find:
  "Interpreter_interpret rules no_match modem message =
     (case find (\<lambda>r. fst r message) rules of
        Some r \<Rightarrow> snd r modem message
      | None \<Rightarrow> no_match modem message)"
  by (induction rules) auto

text \<open>
  Claim C3. \<^verbatim>\<open>interpret\<close> runs exactly one action on a message: when no rule before
  \<open>(pattern, action)\<close> matches and \<open>pattern\<close> does, the call is that one call of
  \<open>action\<close> with the modem and the message, whatever rules follow (they are not
  consulted); when no rule matches, the call is the one call of the default action.
  The witness uses actions that append their name and the message to the modem state.
\<close>

theorem interpret_first_match_wins:
  assumes before: "\<forall>r\<in>set pre. \<not> fst r message"
    and hit: "pattern message"
    and none: "\<forall>r\<in>set rules. \<not> fst r message"
  shows "Interpreter_interpret (pre @ (pattern, action) # rest) no_match modem message
           = action modem message
       \<and> Interpreter_interpret rules no_match modem message = no_match modem message"
proof
  show "Interpreter_interpret (pre @ (pattern, action) # rest) no_match modem message
           = action modem message"
    using before hit by (induction pre) auto
  show "Interpreter_interpret rules no_match modem message = no_match modem message"
    using none by (induction rules) auto
qed

theorem interpret_first_match_wins_witness:
  "Interpreter_interpret
     [(\<lambda>m. startswith m ''RING'', \<lambda>s m. (Inr (), s @ [''A'' @ m])),
      (\<lambda>m. startswith m ''RI'', \<lambda>s m. (Inr (), s @ [''B'' @ m]))]
     (\<lambda>s m. (Inr (), s @ [''default'' @ m])) [] ''RING'' = (Inr (), [''ARING''])
   \<and> Interpreter_interpret
     [(\<lambda>m. startswith m ''RING'', \<lambda>s m. (Inr (), s @ [''A'' @ m])),
      (\<lambda>m. startswith m ''RI'', \<lambda>s m. (Inr (), s @ [''B'' @ m]))]
     (\<lambda>s m. (Inr (), s @ [''default'' @ m])) [] ''BUSY'' = (Inr (), [''defaultBUSY''])"
  using interpret_first_match_wins
    [where pre = "[]" and message = "''RING''" and pattern = "\<lambda>m. startswith m ''RING''"
       and action = "\<lambda>s m. (Inr (), s @ [''A'' @ m])"
       and rest = "[(\<lambda>m. startswith m ''RI'', \<lambda>s m. (Inr (), s @ [''B'' @ m]))]"
       and no_match = "\<lambda>s m. (Inr (), s @ [''default'' @ m])" and modem = "[]"
       and rules = "[]"]
    interpret_first_match_wins
    [where pre = "[]" and message = "''BUSY''" and pattern = "\<lambda>m. True"
       and action = "\<lambda>s m. (Inr (), s)" and rest = "[]"
       and no_match = "\<lambda>s m. (Inr (), s @ [''default'' @ m])" and modem = "[]"
       and rules = "[(\<lambda>m. startswith m ''RING'', \<lambda>s m. (Inr (), s @ [''A'' @ m])),
      (\<lambda>m. startswith m ''RI'', \<lambda>s m. (Inr (), s @ [''B'' @ m]))]"]
  by (simp add: startswith_def)

section \<open>Properties of the lifecycle\<close>

lemmas prober_defs = Prober_start_def Prober_stop_def stop_interpreter_def start_interpreter_def
  QueueFeeder_stop_def set_interpreter_active_def set_feeder_active_def set_feeder_def
  queue_put_def ctrl_write_def record_effect_def

text \<open>
  Claim C6. A second \<^verbatim>\<open>start()\<close> on a started Prober raises the usage error;
  \<^verbatim>\<open>stop()\<close> on a Prober that was never started, or was stopped, raises it;
  \<^verbatim>\<open>stop()\<close> on a started Prober clears the interpreter's flag and puts the sentinel,
  then clears the feeder's flag and writes the line end to the control port, then clears
  \<^verbatim>\<open>_feeder\<close>, in this order, after which \<^verbatim>\<open>start()\<close> succeeds again.
  \<^verbatim>\<open>connect()\<close> with a pppd process id set and \<^verbatim>\<open>disconnect()\<close> without one raise
  the usage error and change nothing.
\<close>

theorem usage_guards:
  assumes started: "Prober_start pr0 = Inr pr1"
    and connected: "pid_truthy (pppd_pid m)"
    and not_connected: "\<not> pid_truthy (pppd_pid m')"
  shows "Prober_start pr1 = Inl (HumodUsageError ''Prober already started.'')
       \<and> Prober_stop (Prober_init ctrl) = Inl (HumodUsageError ''Prober not started.'')
       \<and> (\<exists>pr2. Prober_stop pr1 = Inr pr2
            \<and> effects pr2 = effects pr1 @
                 [(CallerThread, InterpreterActive False), (CallerThread, QueuePut []),
                  (CallerThread, FeederActive False),
                  (CallerThread, CtrlWrite [CHR 0x0D, CHR 0x0A]),
                  (CallerThread, FeederSlot False)]
            \<and> \<not> interpreter_active pr2 \<and> queue pr2 = queue pr1 @ [[]]
            \<and> \<not> feeder_active pr2 \<and> tx (ctrl_port pr2) = tx (ctrl_port pr1) @ [[CHR 0x0D, CHR 0x0A]]
            \<and> \<not> has_feeder pr2
            \<and> Prober_stop pr2 = Inl (HumodUsageError ''Prober not started.'')
            \<and> (\<exists>pr3. Prober_start pr2 = Inr pr3 \<and> has_feeder pr3))
       \<and> connect check pid execv_ok m = Some (Inl (HumodUsageError ''Modem is already connected.''), m)
       \<and> disconnect m' = Inl (HumodUsageError ''Not connected.'')"
proof -
  from started have nf: "\<not> has_feeder pr0"
    by (auto simp: Prober_start_def split: if_splits)
  from started nf have pr1: "has_feeder pr1" "has_interpreter pr1"
    by (auto simp: prober_defs)
  have a: "Prober_start pr1 = Inl (HumodUsageError ''Prober already started.'')"
    using pr1 by (simp add: Prober_start_def)
  have b: "Prober_stop (Prober_init ctrl) = Inl (HumodUsageError ''Prober not started.'')"
    by (simp add: Prober_stop_def Prober_init_def)
  have c: "\<exists>pr2. Prober_stop pr1 = Inr pr2
            \<and> effects pr2 = effects pr1 @
                 [(CallerThread, InterpreterActive False), (CallerThread, QueuePut []),
                  (CallerThread, FeederActive False),
                  (CallerThread, CtrlWrite [CHR 0x0D, CHR 0x0A]),
                  (CallerThread, FeederSlot False)]
            \<and> \<not> interpreter_active pr2 \<and> queue pr2 = queue pr1 @ [[]]
            \<and> \<not> feeder_active pr2 \<and> tx (ctrl_port pr2) = tx (ctrl_port pr1) @ [[CHR 0x0D, CHR 0x0A]]
            \<and> \<not> has_feeder pr2
            \<and> Prober_stop pr2 = Inl (HumodUsageError ''Prober not started.'')
            \<and> (\<exists>pr3. Prober_start pr2 = Inr pr3 \<and> has_feeder pr3)"
    using pr1 by (simp add: prober_defs port_write_def)
  have d: "connect check pid execv_ok m = Some (Inl (HumodUsageError ''Modem is already connected.''), m)"
    using connected by (simp add: connect_def)
  have e: "disconnect m' = Inl (HumodUsageError ''Not connected.'')"
    using not_connected by (simp add: disconnect_def pid_truthy_def split: option.splits)
  from a b c d e show ?thesis by blast
qed

text \<open>
  How the connected state of the witness below arises: a \<^verbatim>\<open>connect()\<close> on a modem that
  answers \<^verbatim>\<open>CONNECT\<close>, in the parent process of the fork.
\<close>

lemma connect_example:
  "connect (\<lambda>s. None) 4242 True
     \<lparr>data_port = \<lparr>rx = [''ATZ'', ''OK'', ''ATDT*99#'', ''CONNECT 7200000''], tx = [],
                   has_timeout = False\<rparr>,
      pppd_pid = None, signals = []\<rparr>
   = Some (Inr (),
       \<lparr>data_port = \<lparr>rx = [], tx = [''ATZ'' @ [CHR 0x0D], ''ATDT*99#'' @ [CHR 0x0D]],
                     has_timeout = False\<rparr>,
        pppd_pid = Some 4242, signals = []\<rparr>)"
  by code_simp

theorem usage_guards_witness:
  "(\<exists>pr1. Prober_start (Prober_init \<lparr>rx = [], tx = [], has_timeout = True\<rparr>) = Inr pr1
      \<and> Prober_start pr1 = Inl (HumodUsageError ''Prober already started.'')
      \<and> (\<exists>pr2. Prober_stop pr1 = Inr pr2
            \<and> effects pr2 =
                 [(CallerThread, FeederSlot True), (CallerThread, ThreadStart FeederThread),
                  (CallerThread, ThreadStart InterpreterThread),
                  (CallerThread, InterpreterActive False), (CallerThread, QueuePut []),
                  (CallerThread, FeederActive False),
                  (CallerThread, CtrlWrite [CHR 0x0D, CHR 0x0A]),
                  (CallerThread, FeederSlot False)]
            \<and> Prober_stop pr2 = Inl (HumodUsageError ''Prober not started.'')
            \<and> (\<exists>pr3. Prober_start pr2 = Inr pr3 \<and> has_feeder pr3)))
   \<and> Prober_stop (Prober_init \<lparr>rx = [], tx = [], has_timeout = True\<rparr>)
       = Inl (HumodUsageError ''Prober not started.'')
   \<and> connect (\<lambda>s. None) 4242 True
       \<lparr>data_port = \<lparr>rx = [], tx = [''ATZ'' @ [CHR 0x0D], ''ATDT*99#'' @ [CHR 0x0D]],
                     has_timeout = False\<rparr>,
        pppd_pid = Some 4242, signals = []\<rparr>
       = Some (Inl (HumodUsageError ''Modem is already connected.''),
          \<lparr>data_port = \<lparr>rx = [], tx = [''ATZ'' @ [CHR 0x0D], ''ATDT*99#'' @ [CHR 0x0D]],
                     has_timeout = False\<rparr>,
           pppd_pid = Some 4242, signals = []\<rparr>)
   \<and> disconnect \<lparr>data_port = \<lparr>rx = [], tx = [], has_timeout = False\<rparr>,
                  pppd_pid = None, signals = []\<rparr>
       = Inl (HumodUsageError ''Not connected.'')"
proof -
  obtain pr1 where s: "Prober_start (Prober_init \<lparr>rx = [], tx = [], has_timeout = True\<rparr>) = Inr pr1"
    by (simp add: Prober_start_def Prober_init_def)
  have e1: "effects pr1 = [(CallerThread, FeederSlot True), (CallerThread, ThreadStart FeederThread),
                  (CallerThread, ThreadStart InterpreterThread)]"
    using s by (auto simp: prober_defs Prober_init_def)
  have c: "pid_truthy (pppd_pid \<lparr>data_port = \<lparr>rx = [], tx = [''ATZ'' @ [CHR 0x0D], ''ATDT*99#'' @ [CHR 0x0D]],
                     has_timeout = False\<rparr>,
        pppd_pid = Some 4242, signals = []\<rparr>)"
    by (simp add: pid_truthy_def)
  have nc: "\<not> pid_truthy (pppd_pid \<lparr>data_port = \<lparr>rx = [], tx = [], has_timeout = False\<rparr>,
                  pppd_pid = None, signals = []\<rparr>)"
    by (simp add: pid_truthy_def)
  show ?thesis
    using usage_guards [OF s c nc, where ctrl = "\<lparr>rx = [], tx = [], has_timeout = True\<rparr>"
        and check = "\<lambda>s. None" and pid = 4242 and execv_ok = True] s e1
    by auto
qed

section \<open>Properties of the threads\<close>

lemma put_msgs_snoc [simp]:
  "put_msgs (h @ [(a, e)]) = put_msgs h @ (case e of QueuePut m \<Rightarrow> [m] | _ \<Rightarrow> [])"
  by (simp add: put_msgs_def)

lemma got_msgs_snoc [simp]:
  "got_msgs (h @ [(a, e)]) = got_msgs h @ (case e of QueueGet m \<Rightarrow> [m] | _ \<Rightarrow> [])"
  by (simp add: got_msgs_def)

lemma dispatched_msgs_snoc [simp]:
  "dispatched_msgs (h @ [(a, e)]) =
     dispatched_msgs h @ (case e of Dispatched m \<Rightarrow> [m] | ActionRaised m x \<Rightarrow> [m] | _ \<Rightarrow> [])"
  by (simp add: dispatched_msgs_def)

lemmas atomic_defs = set_interpreter_active_def set_feeder_active_def set_feeder_def
  queue_put_def ctrl_write_def record_effect_def








lemma exec_invariant:
  assumes f: "\<And>s s'. I s \<Longrightarrow> feeder_step s = Some s' \<Longrightarrow> I s'"
    and i: "\<And>s s'. I s \<Longrightarrow> interpreter_step patterns no_match s = Some s' \<Longrightarrow> I s'"
    and c: "\<And>s s'. I s \<Longrightarrow> caller_step s = Some s' \<Longrightarrow> I s'"
    and a: "\<And>s l. I s \<Longrightarrow> I (s\<lparr>ctrl_port := (ctrl_port s)\<lparr>rx := rx (ctrl_port s) @ [l]\<rparr>\<rparr>)"
    and init: "I s"
  shows "I (exec patterns no_match sched s)"
proof -
  have st: "I (step patterns no_match t s)" if "I s" for t s
  proof (cases t)
    case Feeder
    with that show ?thesis by (auto simp: step_def split: option.splits intro: f)
  next
    case Interpreter
    with that show ?thesis by (auto simp: step_def split: option.splits intro: i)
  next
    case Caller
    with that show ?thesis by (auto simp: step_def split: option.splits intro: c)
  next
    case (Arrive l)
    with that show ?thesis by (simp add: step_def a)
  qed
  show ?thesis
    using init unfolding exec_def by (induction sched arbitrary: s) (auto intro: st)
qed

lemma by_actor_snoc [simp]:
  "by_actor a (h @ [(b, e)]) = by_actor a h @ (if b = a then [e] else [])"
  by (simp add: by_actor_def)

lemma feeder_inv_feeder:
  assumes inv: "feeder_inv s" and st: "feeder_step s = Some s'"
  shows "feeder_inv s'"
proof -
  from inv obtain ls l where
    lk: "lock s = feeder_holds (f_pc s)" and
    h: "by_actor FeederThread (effects s) = concat (map feeder_iteration ls) @ feeder_partial (f_pc s) l"
    by (auto simp: feeder_inv_def)
  show ?thesis
  proof (cases "f_pc s")
    case F_Test
    with st lk h show ?thesis
      by (auto simp: feeder_step_def feeder_inv_def feeder_holds_def feeder_partial_def
               split: if_splits)
  next
    case F_Acquire
    with st lk h have "lock s' = feeder_holds (f_pc s')"
      and "by_actor FeederThread (effects s') = concat (map feeder_iteration ls) @ feeder_partial (f_pc s') l"
      by (auto simp: feeder_step_def feeder_holds_def feeder_partial_def feeder_iteration_def
               atomic_defs split: if_splits)
    then show ?thesis unfolding feeder_inv_def by blast
  next
    case F_Read
    with st obtain x p' where r: "readline (ctrl_port s) = Some (x, p')"
      and s': "s' = record_effect FeederThread (CtrlRead x) (s\<lparr>ctrl_port := p', f_pc := F_Put x\<rparr>)"
      by (auto simp: feeder_step_def split: option.splits)
    with F_Read lk h have "lock s' = feeder_holds (f_pc s')"
      and "by_actor FeederThread (effects s') = concat (map feeder_iteration ls) @ feeder_partial (f_pc s') l"
      by (auto simp: feeder_holds_def feeder_partial_def feeder_iteration_def atomic_defs)
    then show ?thesis unfolding feeder_inv_def by blast
  next
    case (F_Put x)
    with st lk h have "lock s' = feeder_holds (f_pc s')"
      and "by_actor FeederThread (effects s') = concat (map feeder_iteration ls) @ feeder_partial (f_pc s') x"
      by (auto simp: feeder_step_def feeder_holds_def feeder_partial_def feeder_iteration_def
               atomic_defs)
    then show ?thesis unfolding feeder_inv_def by blast
  next
    case F_Release
    with st lk h have "lock s' = feeder_holds (f_pc s')"
      and "by_actor FeederThread (effects s') = concat (map feeder_iteration ls) @ feeder_partial (f_pc s') l"
      by (auto simp: feeder_step_def feeder_holds_def feeder_partial_def feeder_iteration_def
               atomic_defs)
    then show ?thesis unfolding feeder_inv_def by blast
  next
    case F_Sleep
    with st lk h have "lock s' = feeder_holds (f_pc s')"
      and "by_actor FeederThread (effects s') = concat (map feeder_iteration (ls @ [l])) @ feeder_partial (f_pc s') l"
      by (auto simp: feeder_step_def feeder_holds_def feeder_partial_def feeder_iteration_def
               atomic_defs)
    then show ?thesis unfolding feeder_inv_def by blast
  next
    case F_Done
    with st show ?thesis by (simp add: feeder_step_def)
  qed
qed

lemma interpreter_step_frame:
  assumes "interpreter_step patterns no_match s = Some s'"
  shows "f_pc s' = f_pc s" and "c_pc s' = c_pc s" and "lock s' = lock s"
    and "ctrl_port s' = ctrl_port s" and "interpreter_active s' = interpreter_active s"
    and "by_actor FeederThread (effects s') = by_actor FeederThread (effects s)"
    and "by_actor CallerThread (effects s') = by_actor CallerThread (effects s)"
  using assms
  by (cases "i_pc s";
      auto simp: interpreter_step_def atomic_defs
           split: if_splits list.splits sum.splits prod.splits)+

lemma caller_step_frame:
  assumes "caller_step s = Some s'"
  shows "f_pc s' = f_pc s" and "i_pc s' = i_pc s" and "lock s' = lock s"
    and "has_timeout (ctrl_port s') = has_timeout (ctrl_port s)"
    and "by_actor FeederThread (effects s') = by_actor FeederThread (effects s)"
    and "dispatched_msgs (effects s') = dispatched_msgs (effects s)"
  using assms
  by (cases "c_pc s"; auto simp: caller_step_def atomic_defs port_write_def split: if_splits)+

lemma feeder_step_frame:
  assumes "feeder_step s = Some s'"
  shows "i_pc s' = i_pc s" and "c_pc s' = c_pc s"
    and "interpreter_active s' = interpreter_active s"
    and "has_timeout (ctrl_port s') = has_timeout (ctrl_port s)"
    and "by_actor CallerThread (effects s') = by_actor CallerThread (effects s)"
    and "dispatched_msgs (effects s') = dispatched_msgs (effects s)"
  using assms
  by (cases "f_pc s";
      auto simp: feeder_step_def atomic_defs readline_def
           split: if_splits option.splits list.splits)+

lemma feeder_inv_interpreter:
  "feeder_inv s \<Longrightarrow> interpreter_step patterns no_match s = Some s' \<Longrightarrow> feeder_inv s'"
  by (simp add: feeder_inv_def interpreter_step_frame)

lemma feeder_inv_caller: "feeder_inv s \<Longrightarrow> caller_step s = Some s' \<Longrightarrow> feeder_inv s'"
  by (simp add: feeder_inv_def caller_step_frame)

lemma feeder_inv_started: "feeder_inv (started ctrl m)"
proof -
  have "by_actor FeederThread (effects (started ctrl m))
          = concat (map feeder_iteration []) @ feeder_partial (f_pc (started ctrl m)) []"
    by (simp add: started_def feeder_partial_def by_actor_def)
  moreover have "lock (started ctrl m) = feeder_holds (f_pc (started ctrl m))"
    by (simp add: started_def feeder_holds_def)
  ultimately show ?thesis unfolding feeder_inv_def by blast
qed

lemma feeder_inv_exec: "feeder_inv (exec patterns no_match sched (started ctrl m))"
proof (rule exec_invariant [where I = feeder_inv])
  show "feeder_inv (s\<lparr>ctrl_port := (ctrl_port s)\<lparr>rx := rx (ctrl_port s) @ [l]\<rparr>\<rparr>)"
    if "feeder_inv s" for s :: "'a sys" and l
    using that by (simp add: feeder_inv_def)
qed (auto intro: feeder_inv_feeder feeder_inv_interpreter feeder_inv_caller feeder_inv_started)

lemma timeout_exec:
  "has_timeout ctrl \<Longrightarrow> has_timeout (ctrl_port (exec patterns no_match sched (started ctrl m)))"
  by (rule exec_invariant [where I = "\<lambda>s. has_timeout (ctrl_port s)"])
     (simp_all add: feeder_step_frame interpreter_step_frame caller_step_frame started_def)

lemma feeder_read_step:
  "f_pc s = F_Read \<Longrightarrow> rx (ctrl_port s) = l # ls \<Longrightarrow>
   feeder_step s = Some (s\<lparr>ctrl_port := (ctrl_port s)\<lparr>rx := ls\<rparr>, f_pc := F_Put l,
                           effects := effects s @ [(FeederThread, CtrlRead l)]\<rparr>)"
  by (simp add: feeder_step_def readline_def record_effect_def)

lemma feeder_read_timeout_step:
  "f_pc s = F_Read \<Longrightarrow> rx (ctrl_port s) = [] \<Longrightarrow> has_timeout (ctrl_port s) \<Longrightarrow>
   feeder_step s = Some (s\<lparr>f_pc := F_Put [],
                           effects := effects s @ [(FeederThread, CtrlRead [])]\<rparr>)"
  by (simp add: feeder_step_def readline_def record_effect_def)

lemma feeder_put_step:
  "f_pc s = F_Put l \<Longrightarrow>
   feeder_step s = Some (s\<lparr>queue := queue s @ [l], f_pc := F_Release,
                           effects := effects s @ [(FeederThread, QueuePut l)]\<rparr>)"
  by (simp add: feeder_step_def queue_put_def record_effect_def)

lemma feeder_full_iteration:
  assumes pc: "f_pc s = F_Test" and act: "feeder_active s" and free: "\<not> lock s"
    and rd: "readline (ctrl_port s) = Some (x, p')"
  shows "exec patterns no_match [Feeder, Feeder, Feeder, Feeder, Feeder, Feeder] s
           = s\<lparr>queue := queue s @ [x], ctrl_port := p',
               effects := effects s @ map (Pair FeederThread) (feeder_iteration x)\<rparr>"
proof -
  have "exec patterns no_match [Feeder, Feeder, Feeder, Feeder, Feeder, Feeder] s
          = s\<lparr>queue := queue s @ [x], ctrl_port := p',
              effects := effects s @ map (Pair FeederThread) (feeder_iteration x),
              lock := False, f_pc := F_Test\<rparr>"
    using pc act free rd
    by (simp add: exec_def step_def feeder_step_def queue_put_def record_effect_def
        feeder_iteration_def)
  also have "\<dots> = s\<lparr>queue := queue s @ [x], ctrl_port := p',
               effects := effects s @ map (Pair FeederThread) (feeder_iteration x)\<rparr>"
    using pc free by (intro sys.equality) simp_all
  finally show ?thesis .
qed

text \<open>
  Claim C7. In every execution of a started Prober the feeder's history is a sequence
  of full iterations, each of them \<^verbatim>\<open>acquire\<close>, one \<^verbatim>\<open>readline\<close>, the \<^verbatim>\<open>put\<close> of
  exactly the line read (the empty result of a timeout included), \<^verbatim>\<open>release\<close>, and the
  idle time of 100 ms, followed by the part of the iteration under way. The lock is held
  exactly between \<^verbatim>\<open>acquire\<close> and \<^verbatim>\<open>release\<close>: the feeder never holds it while it
  idles. With a timeout configured on the control port the read always returns.
  In every reachable state the read takes the first pending line of the control port and
  removes it from the port, or yields the empty string and leaves the port as it is when
  nothing is pending; the put appends exactly the line read to the queue; and an iteration
  that starts at the loop test with the flag set and runs without another thread in between
  leaves the state changed by exactly that: the line gone from the port, appended to the
  queue, and the five effects added to the history, with the lock free again.
\<close>

theorem feeder_lock_discipline:
  "(\<exists>ls l. by_actor FeederThread (effects (exec patterns no_match sched (started ctrl m)))
            = concat (map feeder_iteration ls)
              @ feeder_partial (f_pc (exec patterns no_match sched (started ctrl m))) l)
   \<and> lock (exec patterns no_match sched (started ctrl m))
       = feeder_holds (f_pc (exec patterns no_match sched (started ctrl m)))
   \<and> (f_pc (exec patterns no_match sched (started ctrl m)) = F_Sleep
        \<longrightarrow> \<not> lock (exec patterns no_match sched (started ctrl m)))
   \<and> (has_timeout ctrl \<and> f_pc (exec patterns no_match sched (started ctrl m)) = F_Read
        \<longrightarrow> feeder_step (exec patterns no_match sched (started ctrl m)) \<noteq> None)
   \<and> (f_pc (exec patterns no_match sched (started ctrl m)) = F_Read
        \<and> rx (ctrl_port (exec patterns no_match sched (started ctrl m))) = line # pending_lines
        \<longrightarrow> feeder_step (exec patterns no_match sched (started ctrl m))
            = Some ((exec patterns no_match sched (started ctrl m))
                 \<lparr>ctrl_port := (ctrl_port (exec patterns no_match sched (started ctrl m)))
                                  \<lparr>rx := pending_lines\<rparr>,
                  f_pc := F_Put line,
                  effects := effects (exec patterns no_match sched (started ctrl m))
                             @ [(FeederThread, CtrlRead line)]\<rparr>))
   \<and> (f_pc (exec patterns no_match sched (started ctrl m)) = F_Read
        \<and> rx (ctrl_port (exec patterns no_match sched (started ctrl m))) = []
        \<and> has_timeout ctrl
        \<longrightarrow> feeder_step (exec patterns no_match sched (started ctrl m))
            = Some ((exec patterns no_match sched (started ctrl m))
                 \<lparr>f_pc := F_Put [],
                  effects := effects (exec patterns no_match sched (started ctrl m))
                             @ [(FeederThread, CtrlRead [])]\<rparr>))
   \<and> (f_pc (exec patterns no_match sched (started ctrl m)) = F_Put read_line
        \<longrightarrow> feeder_step (exec patterns no_match sched (started ctrl m))
            = Some ((exec patterns no_match sched (started ctrl m))
                 \<lparr>queue := queue (exec patterns no_match sched (started ctrl m)) @ [read_line],
                  f_pc := F_Release,
                  effects := effects (exec patterns no_match sched (started ctrl m))
                             @ [(FeederThread, QueuePut read_line)]\<rparr>))
   \<and> (f_pc (exec patterns no_match sched (started ctrl m)) = F_Test
        \<and> feeder_active (exec patterns no_match sched (started ctrl m))
        \<and> readline (ctrl_port (exec patterns no_match sched (started ctrl m))) = Some (x, p')
        \<longrightarrow> exec patterns no_match [Feeder, Feeder, Feeder, Feeder, Feeder, Feeder]
              (exec patterns no_match sched (started ctrl m))
            = (exec patterns no_match sched (started ctrl m))
                 \<lparr>queue := queue (exec patterns no_match sched (started ctrl m)) @ [x],
                  ctrl_port := p',
                  effects := effects (exec patterns no_match sched (started ctrl m))
                             @ map (Pair FeederThread) (feeder_iteration x)\<rparr>)"
proof -
  let ?s = "exec patterns no_match sched (started ctrl m)"
  have inv: "feeder_inv ?s" by (rule feeder_inv_exec)
  then have lk: "lock ?s = feeder_holds (f_pc ?s)" by (simp add: feeder_inv_def)
  have tm: "has_timeout (ctrl_port ?s)" if "has_timeout ctrl"
    using timeout_exec [OF that, of patterns no_match sched m] .
  have rd: "feeder_step ?s \<noteq> None" if "has_timeout ctrl" "f_pc ?s = F_Read"
    using tm [OF that(1)] that(2)
    by (auto simp: feeder_step_def readline_def split: list.splits)
  have it: "exec patterns no_match [Feeder, Feeder, Feeder, Feeder, Feeder, Feeder] ?s
            = ?s\<lparr>queue := queue ?s @ [x], ctrl_port := p',
                 effects := effects ?s @ map (Pair FeederThread) (feeder_iteration x)\<rparr>"
    if "f_pc ?s = F_Test" "feeder_active ?s" "readline (ctrl_port ?s) = Some (x, p')"
  proof (rule feeder_full_iteration [OF that(1) that(2) _ that(3)])
    show "\<not> lock ?s" using lk that(1) by (simp add: feeder_holds_def)
  qed
  from inv have sh: "\<exists>ls l. by_actor FeederThread (effects ?s)
            = concat (map feeder_iteration ls) @ feeder_partial (f_pc ?s) l"
    by (simp add: feeder_inv_def)
  have sl: "f_pc ?s = F_Sleep \<longrightarrow> \<not> lock ?s"
    using lk by (simp add: feeder_holds_def)
  show ?thesis
    using sh lk sl rd it tm
      feeder_read_step [of ?s line pending_lines]
      feeder_read_timeout_step [of ?s]
      feeder_put_step [of ?s read_line]
    by blast
qed

lemma after_flag_snoc_in:
  "(CallerThread, InterpreterActive False) \<in> set h \<Longrightarrow> after_flag (h @ [x]) = after_flag h @ [x]"
  by (simp add: after_flag_def)

lemma after_flag_snoc_notin:
  "(CallerThread, InterpreterActive False) \<notin> set h \<Longrightarrow>
   after_flag (h @ [x]) = (if x = (CallerThread, InterpreterActive False) then [x] else [])"
  by (auto simp: after_flag_def dropWhile_append)

lemma after_flag_notin: "(CallerThread, InterpreterActive False) \<notin> set h \<Longrightarrow> after_flag h = []"
  by (auto simp: after_flag_def)

lemma feeder_step_flag:
  assumes "feeder_step s = Some s'"
  shows "((CallerThread, InterpreterActive False) \<in> set (effects s'))
           = ((CallerThread, InterpreterActive False) \<in> set (effects s))"
    and "dispatched_msgs (after_flag (effects s')) = dispatched_msgs (after_flag (effects s))"
proof -
  from assms have shape: "effects s' = effects s
    \<or> (\<exists>e. effects s' = effects s @ [(FeederThread, e)]
           \<and> (case e of Dispatched m \<Rightarrow> [m] | ActionRaised m x \<Rightarrow> [m] | _ \<Rightarrow> []) = [])"
    by (cases "f_pc s")
       (auto simp: feeder_step_def atomic_defs split: if_splits option.splits)
  show "((CallerThread, InterpreterActive False) \<in> set (effects s'))
           = ((CallerThread, InterpreterActive False) \<in> set (effects s))"
    using shape by auto
  show "dispatched_msgs (after_flag (effects s')) = dispatched_msgs (after_flag (effects s))"
    using shape
    by (cases "(CallerThread, InterpreterActive False) \<in> set (effects s)")
       (auto simp: after_flag_snoc_in after_flag_snoc_notin after_flag_notin)
qed

lemma stop_inv_feeder:
  "stop_inv s \<Longrightarrow> feeder_step s = Some s' \<Longrightarrow> stop_inv s'"
  by (simp add: stop_inv_def feeder_step_frame feeder_step_flag)

lemma interpreter_step_flag:
  assumes "interpreter_step patterns no_match s = Some s'"
  shows "((CallerThread, InterpreterActive False) \<in> set (effects s'))
           = ((CallerThread, InterpreterActive False) \<in> set (effects s))"
  using assms
  by (cases "i_pc s")
     (auto simp: interpreter_step_def atomic_defs split: if_splits list.splits sum.splits prod.splits)

lemma interpreter_step_count:
  assumes st: "interpreter_step patterns no_match s = Some s'"
    and fl: "(CallerThread, InterpreterActive False) \<in> set (effects s)"
    and na: "\<not> interpreter_active s"
  shows "length (dispatched_msgs (after_flag (effects s'))) + pending (i_pc s')
           = length (dispatched_msgs (after_flag (effects s))) + pending (i_pc s)"
  using assms
  by (cases "i_pc s")
     (auto simp: interpreter_step_def atomic_defs after_flag_snoc_in pending_def
           split: list.splits sum.splits prod.splits)

lemma stop_inv_interpreter:
  assumes inv: "stop_inv s" and st: "interpreter_step patterns no_match s = Some s'"
  shows "stop_inv s'"
proof (cases "stop_progress (c_pc s) = 0")
  case True
  with inv show ?thesis
    by (simp add: stop_inv_def interpreter_step_frame [OF st] interpreter_step_flag [OF st])
next
  case False
  with inv have fl: "(CallerThread, InterpreterActive False) \<in> set (effects s)"
    and na: "\<not> interpreter_active s"
    by (simp_all add: stop_inv_def)
  from False inv show ?thesis
    by (simp add: stop_inv_def interpreter_step_frame [OF st] interpreter_step_flag [OF st]
        interpreter_step_count [OF st fl na])
qed

lemma pending_le: "pending pc \<le> 1"
  by (simp add: pending_def split: ipc.splits)

lemma stop_inv_caller:
  assumes inv: "stop_inv s" and st: "caller_step s = Some s'"
  shows "stop_inv s'"
proof (cases "c_pc s")
  case C_Call
  with inv st show ?thesis
    by (auto simp: caller_step_def stop_inv_def stop_progress_def split: if_splits)
next
  case C_InterpreterFlag
  with inv st pending_le [of "i_pc s"] show ?thesis
    by (auto simp: caller_step_def stop_inv_def stop_progress_def stop_effects_def atomic_defs
        after_flag_snoc_notin dispatched_msgs_def split: if_splits)
next
  case C_Sentinel
  with inv st show ?thesis
    by (auto simp: caller_step_def stop_inv_def stop_progress_def stop_effects_def atomic_defs
        after_flag_snoc_in)
next
  case C_FeederFlag
  with inv st show ?thesis
    by (auto simp: caller_step_def stop_inv_def stop_progress_def stop_effects_def atomic_defs
        after_flag_snoc_in)
next
  case C_Unblock
  with inv st show ?thesis
    by (auto simp: caller_step_def stop_inv_def stop_progress_def stop_effects_def atomic_defs
        after_flag_snoc_in)
next
  case C_Clear
  with inv st show ?thesis
    by (auto simp: caller_step_def stop_inv_def stop_progress_def stop_effects_def atomic_defs
        after_flag_snoc_in)
next
  case C_Returned
  with st show ?thesis by (simp add: caller_step_def)
next
  case (C_Raised e)
  with st show ?thesis by (simp add: caller_step_def)
qed

lemma stop_inv_started: "stop_inv (started ctrl m)"
  by (simp add: stop_inv_def started_def stop_progress_def start_effects_def by_actor_def)

lemma stop_inv_exec: "stop_inv (exec patterns no_match sched (started ctrl m))"
proof (rule exec_invariant [where I = stop_inv])
  show "stop_inv (s\<lparr>ctrl_port := (ctrl_port s)\<lparr>rx := rx (ctrl_port s) @ [l]\<rparr>\<rparr>)"
    if "stop_inv s" for s :: "'a sys" and l
    using that by (auto simp: stop_inv_def split: if_splits)
qed (auto intro: stop_inv_feeder stop_inv_interpreter stop_inv_caller stop_inv_started)

lemma feeder_step_got:
  "feeder_step s = Some s' \<Longrightarrow> got_msgs (effects s') = got_msgs (effects s)"
  by (cases "f_pc s")
     (auto simp: feeder_step_def atomic_defs split: if_splits option.splits)

lemma caller_step_got:
  "caller_step s = Some s' \<Longrightarrow> got_msgs (effects s') = got_msgs (effects s)"
  by (cases "c_pc s") (auto simp: caller_step_def atomic_defs split: if_splits)

lemma feeder_step_producer:
  assumes "feeder_step u = Some u'"
  shows "\<exists>P. queue u' = queue u @ P \<and> put_msgs (effects u') = put_msgs (effects u) @ P"
  using assms
  by (cases "f_pc u")
     (auto simp: feeder_step_def atomic_defs split: if_splits option.splits)

lemma caller_step_producer:
  assumes "caller_step u = Some u'"
  shows "\<exists>P. queue u' = queue u @ P \<and> put_msgs (effects u') = put_msgs (effects u) @ P"
    and "\<not> interpreter_active u \<Longrightarrow> \<not> interpreter_active u'"
  using assms
  by (cases "c_pc u"; auto simp: caller_step_def atomic_defs split: if_splits)+

lemma interpreter_step_inactive:
  assumes st: "interpreter_step patterns no_match u = Some u'"
    and na: "\<not> interpreter_active u"
  shows "put_msgs (effects u') = put_msgs (effects u) \<and> \<not> interpreter_active u'
       \<and> ((i_pc u = I_Test \<and> i_pc u' = I_Done \<and> queue u' = queue u
             \<and> dispatched_msgs (effects u') = dispatched_msgs (effects u)
             \<and> got_msgs (effects u') = got_msgs (effects u))
          \<or> (\<exists>x q. i_pc u = I_Get \<and> queue u = x # q \<and> queue u' = q \<and> i_pc u' = I_Interpret x
             \<and> dispatched_msgs (effects u') = dispatched_msgs (effects u))
          \<or> (\<exists>x. i_pc u = I_Interpret x \<and> interpreter_ended (i_pc u') \<and> queue u' = queue u
             \<and> dispatched_msgs (effects u') = dispatched_msgs (effects u) @ [x]))"
  using assms
  by (cases "i_pc u")
     (auto simp: interpreter_step_def atomic_defs interpreter_ended_def
           split: list.splits sum.splits prod.splits)

lemma inactive_at_test:
  assumes na: "\<not> interpreter_active t" and pc: "i_pc t = I_Test"
  shows "dispatched_msgs (effects (exec patterns no_match later t)) = dispatched_msgs (effects t)
       \<and> got_msgs (effects (exec patterns no_match later t)) = got_msgs (effects t)
       \<and> (\<exists>more. queue (exec patterns no_match later t) = queue t @ more)"
proof -
  let ?I = "\<lambda>u. \<not> interpreter_active u \<and> (i_pc u = I_Test \<or> i_pc u = I_Done)
                \<and> dispatched_msgs (effects u) = dispatched_msgs (effects t)
                \<and> got_msgs (effects u) = got_msgs (effects t)
                \<and> (\<exists>more. queue u = queue t @ more)"
  have "?I (exec patterns no_match later t)"
  proof (rule exec_invariant [where I = ?I])
    fix u u' :: "'a sys"
    assume I: "?I u"
    then obtain more where q: "queue u = queue t @ more" by blast
    show "?I u'" if st: "feeder_step u = Some u'"
    proof -
      from feeder_step_producer [OF st] obtain P where "queue u' = queue u @ P" by blast
      with q have "queue u' = queue t @ (more @ P)" by simp
      then have "\<exists>more. queue u' = queue t @ more" by blast
      with I show ?thesis
        by (simp add: feeder_step_frame [OF st] feeder_step_got [OF st])
    qed
    show "?I u'" if st: "interpreter_step patterns no_match u = Some u'"
      using interpreter_step_inactive [OF st] I
      by (cases "i_pc u")
         (auto simp: interpreter_step_def atomic_defs split: list.splits)
    show "?I u'" if st: "caller_step u = Some u'"
    proof -
      from caller_step_producer(1) [OF st] obtain P where "queue u' = queue u @ P" by blast
      with q have "queue u' = queue t @ (more @ P)" by simp
      then have "\<exists>more. queue u' = queue t @ more" by blast
      with I caller_step_producer(2) [OF st] show ?thesis
        by (simp add: caller_step_frame [OF st] caller_step_got [OF st])
    qed
  next
    show "?I (u\<lparr>ctrl_port := (ctrl_port u)\<lparr>rx := rx (ctrl_port u) @ [l]\<rparr>\<rparr>)" if "?I u"
      for u :: "'a sys" and l
      using that by simp
  next
    show "?I t" using na pc by simp
  qed
  then show ?thesis by blast
qed

lemma inactive_in_dispatch:
  assumes na: "\<not> interpreter_active t" and pc: "i_pc t = I_Interpret x"
  shows "dispatched_msgs (effects (exec patterns no_match later t)) = dispatched_msgs (effects t)
       \<or> dispatched_msgs (effects (exec patterns no_match later t))
           = dispatched_msgs (effects t) @ [x]"
proof -
  let ?I = "\<lambda>u. \<not> interpreter_active u
                \<and> ((i_pc u = I_Interpret x
                      \<and> dispatched_msgs (effects u) = dispatched_msgs (effects t))
                   \<or> (interpreter_ended (i_pc u)
                      \<and> dispatched_msgs (effects u) = dispatched_msgs (effects t) @ [x]))"
  have "?I (exec patterns no_match later t)"
  proof (rule exec_invariant [where I = ?I])
    fix u u' :: "'a sys"
    assume I: "?I u"
    show "?I u'" if st: "feeder_step u = Some u'"
      using I by (simp add: feeder_step_frame [OF st])
    show "?I u'" if st: "interpreter_step patterns no_match u = Some u'"
      using interpreter_step_inactive [OF st] I
      by (auto simp: interpreter_ended_def)
    show "?I u'" if st: "caller_step u = Some u'"
      using I caller_step_producer(2) [OF st] by (simp add: caller_step_frame [OF st])
  next
    show "?I (u\<lparr>ctrl_port := (ctrl_port u)\<lparr>rx := rx (ctrl_port u) @ [l]\<rparr>\<rparr>)" if "?I u"
      for u :: "'a sys" and l
      using that by simp
  next
    show "?I t" using na pc by simp
  qed
  then show ?thesis by blast
qed

lemma inactive_at_get:
  assumes na: "\<not> interpreter_active t" and pc: "i_pc t = I_Get"
  shows "\<exists>P. put_msgs (effects (exec patterns no_match later t)) = put_msgs (effects t) @ P
           \<and> (dispatched_msgs (effects (exec patterns no_match later t))
                = dispatched_msgs (effects t)
              \<or> (\<exists>x rest. queue t @ P = x # rest
                    \<and> dispatched_msgs (effects (exec patterns no_match later t))
                        = dispatched_msgs (effects t) @ [x]))"
proof -
  let ?K = "\<lambda>u P. put_msgs (effects u) = put_msgs (effects t) @ P
              \<and> ((i_pc u = I_Get \<and> dispatched_msgs (effects u) = dispatched_msgs (effects t)
                    \<and> queue u = queue t @ P)
                 \<or> (\<exists>x rest. queue t @ P = x # rest
                      \<and> ((i_pc u = I_Interpret x
                            \<and> dispatched_msgs (effects u) = dispatched_msgs (effects t))
                         \<or> (interpreter_ended (i_pc u)
                            \<and> dispatched_msgs (effects u) = dispatched_msgs (effects t) @ [x]))))"
  let ?I = "\<lambda>u. \<not> interpreter_active u \<and> (\<exists>P. ?K u P)"
  have producer: "?I u'"
    if I: "?I u" and grow: "\<exists>Q. queue u' = queue u @ Q
                                \<and> put_msgs (effects u') = put_msgs (effects u) @ Q"
      and same: "i_pc u' = i_pc u" "dispatched_msgs (effects u') = dispatched_msgs (effects u)"
      and na': "\<not> interpreter_active u'"
    for u u' :: "'a sys"
  proof -
    from I obtain P where K: "?K u P" by blast
    from grow obtain Q where Q: "queue u' = queue u @ Q"
      "put_msgs (effects u') = put_msgs (effects u) @ Q" by blast
    from K have put: "put_msgs (effects u') = put_msgs (effects t) @ (P @ Q)"
      using Q by simp
    from K consider
        (get) "i_pc u = I_Get" "dispatched_msgs (effects u) = dispatched_msgs (effects t)"
          "queue u = queue t @ P"
      | (inflight) y rest where "queue t @ P = y # rest" "i_pc u = I_Interpret y"
          "dispatched_msgs (effects u) = dispatched_msgs (effects t)"
      | (ended) y rest where "queue t @ P = y # rest" "interpreter_ended (i_pc u)"
          "dispatched_msgs (effects u) = dispatched_msgs (effects t) @ [y]"
      by blast
    then have "?K u' (P @ Q)"
    proof cases
      case get
      with put Q same show ?thesis by simp
    next
      case inflight
      from inflight(1) have "queue t @ (P @ Q) = y # (rest @ Q)" by simp
      moreover from inflight same
      have "i_pc u' = I_Interpret y"
        "dispatched_msgs (effects u') = dispatched_msgs (effects t)"
        by simp_all
      ultimately show ?thesis using put by blast
    next
      case ended
      from ended(1) have "queue t @ (P @ Q) = y # (rest @ Q)" by simp
      moreover from ended same
      have "interpreter_ended (i_pc u')"
        "dispatched_msgs (effects u') = dispatched_msgs (effects t) @ [y]"
        by simp_all
      ultimately show ?thesis using put by blast
    qed
    with na' show ?thesis by blast
  qed
  have "?I (exec patterns no_match later t)"
  proof (rule exec_invariant [where I = ?I])
    fix u u' :: "'a sys"
    assume I: "?I u"
    show "?I u'" if st: "feeder_step u = Some u'"
      using I feeder_step_producer [OF st]
      by (rule producer) (use I in \<open>simp_all add: feeder_step_frame [OF st]\<close>)
    show "?I u'" if st: "caller_step u = Some u'"
      using I caller_step_producer(1) [OF st]
      by (rule producer)
         (use I caller_step_producer(2) [OF st] in \<open>simp_all add: caller_step_frame [OF st]\<close>)
    show "?I u'" if st: "interpreter_step patterns no_match u = Some u'"
    proof -
      from I obtain P where na: "\<not> interpreter_active u" and K: "?K u P" by blast
      note sh = interpreter_step_inactive [OF st na]
      from sh K have put: "put_msgs (effects u') = put_msgs (effects t) @ P" by simp
      from sh have na': "\<not> interpreter_active u'" by blast
      from K consider
          (get) "i_pc u = I_Get" "dispatched_msgs (effects u) = dispatched_msgs (effects t)"
            "queue u = queue t @ P"
        | (inflight) y rest where "queue t @ P = y # rest" "i_pc u = I_Interpret y"
            "dispatched_msgs (effects u) = dispatched_msgs (effects t)"
        | (ended) y rest where "queue t @ P = y # rest" "interpreter_ended (i_pc u)"
            "dispatched_msgs (effects u) = dispatched_msgs (effects t) @ [y]"
        by blast
      then have "?K u' P"
      proof cases
        case get
        with sh obtain x q where "queue u = x # q" "i_pc u' = I_Interpret x"
          "dispatched_msgs (effects u') = dispatched_msgs (effects u)"
          by auto
        with get have "queue t @ P = x # q" "i_pc u' = I_Interpret x"
          "dispatched_msgs (effects u') = dispatched_msgs (effects t)"
          by simp_all
        with put show ?thesis by blast
      next
        case inflight
        with sh have "interpreter_ended (i_pc u')"
          "dispatched_msgs (effects u') = dispatched_msgs (effects t) @ [y]"
          by auto
        with inflight(1) put show ?thesis by blast
      next
        case ended
        with sh have "interpreter_ended (i_pc u')"
          "dispatched_msgs (effects u') = dispatched_msgs (effects t) @ [y]"
          by (auto simp: interpreter_ended_def)
        with ended(1) put show ?thesis by blast
      qed
      with na' show ?thesis by blast
    qed
  next
    show "?I (u\<lparr>ctrl_port := (ctrl_port u)\<lparr>rx := rx (ctrl_port u) @ [l]\<rparr>\<rparr>)" if "?I u"
      for u :: "'a sys" and l
      using that by simp
  next
    have "?K t []" using pc by simp
    with na show "?I t" by blast
  qed
  then obtain P where "?K (exec patterns no_match later t) P" by blast
  then show ?thesis by blast
qed

text \<open>
  Claim C5. (as amended) Stopping clears the interpreter's flag first and then puts
  the empty sentinel, before it turns to the feeder. From the moment the flag is cleared
  the flag stays cleared and the interpreter dispatches at most one more message, under
  every schedule. Which one depends on where the interpreter is: at its loop test it takes
  nothing more from the queue and dispatches nothing, so that what is queued, the sentinel
  included, stays queued; in the middle of a dispatch it completes only that one; about to
  take a message it dispatches only the first in line, the head of the queue or, when the
  queue is empty, the first message put afterwards, which is the sentinel only when nothing
  else is ahead of it.
\<close>

theorem stop_at_most_one_dispatch:
  "by_actor CallerThread (effects (exec patterns no_match sched (started ctrl m)))
     = start_effects
       @ take (stop_progress (c_pc (exec patterns no_match sched (started ctrl m)))) stop_effects
   \<and> length (dispatched_msgs (after_flag (effects (exec patterns no_match sched (started ctrl m)))))
       \<le> 1
   \<and> (stop_progress (c_pc (exec patterns no_match sched (started ctrl m))) \<noteq> 0
        \<longrightarrow> \<not> interpreter_active (exec patterns no_match sched (started ctrl m)))
   \<and> (\<not> interpreter_active t \<and> i_pc t = I_Test
        \<longrightarrow> dispatched_msgs (effects (exec patterns no_match later t))
              = dispatched_msgs (effects t)
          \<and> got_msgs (effects (exec patterns no_match later t)) = got_msgs (effects t)
          \<and> (\<exists>more. queue (exec patterns no_match later t) = queue t @ more))
   \<and> (\<not> interpreter_active t \<and> i_pc t = I_Interpret msg
        \<longrightarrow> dispatched_msgs (effects (exec patterns no_match later t))
              = dispatched_msgs (effects t)
          \<or> dispatched_msgs (effects (exec patterns no_match later t))
              = dispatched_msgs (effects t) @ [msg])
   \<and> (\<not> interpreter_active t \<and> i_pc t = I_Get
        \<longrightarrow> (\<exists>P. put_msgs (effects (exec patterns no_match later t))
                    = put_msgs (effects t) @ P
                \<and> (dispatched_msgs (effects (exec patterns no_match later t))
                      = dispatched_msgs (effects t)
                   \<or> (\<exists>x rest. queue t @ P = x # rest
                         \<and> dispatched_msgs (effects (exec patterns no_match later t))
                             = dispatched_msgs (effects t) @ [x]))))"
proof -
  let ?s = "exec patterns no_match sched (started ctrl m)"
  have inv: "stop_inv ?s" by (rule stop_inv_exec)
  have a: "by_actor CallerThread (effects ?s)
             = start_effects @ take (stop_progress (c_pc ?s)) stop_effects"
    using inv by (simp add: stop_inv_def)
  have b: "length (dispatched_msgs (after_flag (effects ?s))) \<le> 1"
    using inv by (auto simp: stop_inv_def after_flag_notin dispatched_msgs_def)
  have c: "stop_progress (c_pc ?s) \<noteq> 0 \<longrightarrow> \<not> interpreter_active ?s"
    using inv by (simp add: stop_inv_def)
  note d = inactive_at_test [of t patterns no_match later]
  note e = inactive_in_dispatch [of t msg patterns no_match later]
  note f = inactive_at_get [of t patterns no_match later]
  from a b c d e f show ?thesis by blast
qed

lemma dead_exec:
  assumes "i_pc s = I_Dead e"
  shows "i_pc (exec patterns no_match sched s) = I_Dead e
       \<and> dispatched_msgs (effects (exec patterns no_match sched s)) = dispatched_msgs (effects s)
       \<and> got_msgs (effects (exec patterns no_match sched s)) = got_msgs (effects s)"
proof (rule exec_invariant
    [where I = "\<lambda>t. i_pc t = I_Dead e \<and> dispatched_msgs (effects t) = dispatched_msgs (effects s)
                  \<and> got_msgs (effects t) = got_msgs (effects s)"])
  show "i_pc s' = I_Dead e \<and> dispatched_msgs (effects s') = dispatched_msgs (effects s)
          \<and> got_msgs (effects s') = got_msgs (effects s)"
    if "i_pc t = I_Dead e \<and> dispatched_msgs (effects t) = dispatched_msgs (effects s)
          \<and> got_msgs (effects t) = got_msgs (effects s)"
      and "interpreter_step patterns no_match t = Some s'" for t s'
    using that by (simp add: interpreter_step_def)
qed (simp_all add: assms feeder_step_frame caller_step_frame feeder_step_got caller_step_got)

text \<open>
  Claim C9. (as amended) An error raised by a dispatched action is not caught: the
  step of the interpreter that dispatches the message ends the thread, and in every
  continuation, whatever arrives and whoever runs, the thread stays ended, no further
  message is taken from the queue and none is dispatched.
\<close>

theorem action_failure_ends_interpreter:
  assumes pc: "i_pc s = I_Interpret msg"
    and raised: "fst (Interpreter_interpret patterns no_match (i_modem s) msg) = Inl e"
  shows "i_pc (exec patterns no_match (Interpreter # sched) s) = I_Dead e
       \<and> dispatched_msgs (effects (exec patterns no_match (Interpreter # sched) s))
           = dispatched_msgs (effects s) @ [msg]
       \<and> got_msgs (effects (exec patterns no_match (Interpreter # sched) s))
           = got_msgs (effects s)"
proof -
  let ?s1 = "step patterns no_match Interpreter s"
  from pc raised have s1: "i_pc ?s1 = I_Dead e"
    "dispatched_msgs (effects ?s1) = dispatched_msgs (effects s) @ [msg]"
    "got_msgs (effects ?s1) = got_msgs (effects s)"
    by (auto simp: step_def interpreter_step_def atomic_defs split: prod.splits sum.splits)
  have "exec patterns no_match (Interpreter # sched) s = exec patterns no_match sched ?s1"
    by (simp add: exec_def)
  with dead_exec [OF s1(1), of patterns no_match sched] s1 show ?thesis by simp
qed

text \<open>
  The claim as stated fails: the action raises on \<^verbatim>\<open>RING\<close>; the interpreter thread
  ends, and \<^verbatim>\<open>BUSY\<close>, enqueued behind it, stays in the queue however often the
  interpreter is given a turn.
\<close>

theorem action_failure_counterexample:
  "i_pc (exec example_rules example_no_match
              [Arrive ''RING'', Arrive ''BUSY'',
               Feeder, Feeder, Feeder, Feeder, Feeder, Feeder,
               Feeder, Feeder, Feeder, Feeder, Feeder, Feeder,
               Interpreter, Interpreter, Interpreter, Interpreter, Interpreter]
              (started example_ctrl ()))
     = I_Dead (AtCommandError ''boom'')
   \<and> queue (exec example_rules example_no_match
              [Arrive ''RING'', Arrive ''BUSY'',
               Feeder, Feeder, Feeder, Feeder, Feeder, Feeder,
               Feeder, Feeder, Feeder, Feeder, Feeder, Feeder,
               Interpreter, Interpreter, Interpreter, Interpreter, Interpreter]
              (started example_ctrl ()))
     = [''BUSY'']
   \<and> dispatched_msgs (effects
         (exec example_rules example_no_match
              [Arrive ''RING'', Arrive ''BUSY'',
               Feeder, Feeder, Feeder, Feeder, Feeder, Feeder,
               Feeder, Feeder, Feeder, Feeder, Feeder, Feeder,
               Interpreter, Interpreter, Interpreter, Interpreter, Interpreter]
              (started example_ctrl ())))
     = [''RING'']"
  by code_simp

theorem action_failure_ends_interpreter_witness:
  "i_pc (exec example_rules example_no_match [Interpreter, Interpreter, Interpreter]
          (exec example_rules example_no_match
             [Arrive ''RING'', Feeder, Feeder, Feeder, Feeder, Interpreter, Interpreter]
             (started example_ctrl ())))
     = I_Dead (AtCommandError ''boom'')
   \<and> dispatched_msgs (effects
         (exec example_rules example_no_match [Interpreter, Interpreter, Interpreter]
           (exec example_rules example_no_match
             [Arrive ''RING'', Feeder, Feeder, Feeder, Feeder, Interpreter, Interpreter]
             (started example_ctrl ()))))
     = [''RING'']"
proof -
  let ?s = "exec example_rules example_no_match
             [Arrive ''RING'', Feeder, Feeder, Feeder, Feeder, Interpreter, Interpreter]
             (started example_ctrl ())"
  have pc: "i_pc ?s = I_Interpret ''RING''" by code_simp
  have r: "fst (Interpreter_interpret example_rules example_no_match (i_modem ?s) ''RING'')
             = Inl (AtCommandError ''boom'')"
    by (simp add: example_rules_def startswith_def)
  have d: "dispatched_msgs (effects ?s) = []" by code_simp
  show ?thesis
    using action_failure_ends_interpreter [OF pc r, of "[Interpreter, Interpreter]"] d
    by simp
qed

text \<open>
  The claim as stated fails. First execution: \<^verbatim>\<open>stop\<close> runs before the interpreter's
  first loop test; the interpreter leaves its loop without any dispatch and the sentinel
  stays in the queue. Second execution: the interpreter waits in \<^verbatim>\<open>get\<close>, the feeder
  enqueues \<^verbatim>\<open>RING\<close> between the two statements of \<^verbatim>\<open>_stop_interpreter\<close>; the one
  message dispatched after the flag is cleared is \<^verbatim>\<open>RING\<close>, not the sentinel.
\<close>

theorem stop_sentinel_counterexample:
  "i_pc (exec [] example_no_match [Caller, Caller, Caller, Interpreter]
           (started example_ctrl ())) = I_Done
   \<and> queue (exec [] example_no_match [Caller, Caller, Caller, Interpreter]
           (started example_ctrl ())) = [[]]
   \<and> dispatched_msgs (effects (exec [] example_no_match [Caller, Caller, Caller, Interpreter]
           (started example_ctrl ()))) = []
   \<and> i_pc (exec [] example_no_match
           [Interpreter, Arrive ''RING'', Caller, Caller, Feeder, Feeder, Feeder, Feeder,
            Caller, Interpreter, Interpreter, Interpreter]
           (started example_ctrl ())) = I_Done
   \<and> queue (exec [] example_no_match
           [Interpreter, Arrive ''RING'', Caller, Caller, Feeder, Feeder, Feeder, Feeder,
            Caller, Interpreter, Interpreter, Interpreter]
           (started example_ctrl ())) = [[]]
   \<and> dispatched_msgs (after_flag (effects (exec [] example_no_match
           [Interpreter, Arrive ''RING'', Caller, Caller, Feeder, Feeder, Feeder, Feeder,
            Caller, Interpreter, Interpreter, Interpreter]
           (started example_ctrl ())))) = [''RING'']"
  by code_simp

theorem stop_at_most_one_dispatch_witness:
  "\<not> interpreter_active (exec [] example_no_match [Caller, Caller] (started example_ctrl ()))
   \<and> by_actor CallerThread
        (effects (exec [] example_no_match [Caller, Caller] (started example_ctrl ())))
       = [FeederSlot True, ThreadStart FeederThread, ThreadStart InterpreterThread,
          InterpreterActive False]
   \<and> dispatched_msgs (effects (exec [] example_no_match [Interpreter, Interpreter]
        (exec [] example_no_match [Caller, Caller, Caller] (started example_ctrl ())))) = []
   \<and> (\<exists>more. queue (exec [] example_no_match [Interpreter, Interpreter]
        (exec [] example_no_match [Caller, Caller, Caller] (started example_ctrl ())))
          = [[]] @ more)
   \<and> dispatched_msgs (effects (exec [] example_no_match
        [Caller, Interpreter, Interpreter, Interpreter]
        (exec [] example_no_match
           [Arrive ''RING'', Feeder, Feeder, Feeder, Feeder, Interpreter, Interpreter,
            Caller, Caller]
           (started example_ctrl ())))) = [''RING'']
   \<and> (\<exists>P. put_msgs (effects (exec [] example_no_match
               [Caller, Interpreter, Interpreter, Interpreter]
               (exec [] example_no_match [Interpreter, Caller, Caller]
                  (started example_ctrl ()))))
             = [] @ P
          \<and> (\<exists>x rest. [] @ P = x # rest
                \<and> dispatched_msgs (effects (exec [] example_no_match
                      [Caller, Interpreter, Interpreter, Interpreter]
                      (exec [] example_no_match [Interpreter, Caller, Caller]
                         (started example_ctrl ()))))
                    = [] @ [x]))
   \<and> dispatched_msgs (effects (exec [] example_no_match
        [Caller, Interpreter, Interpreter, Interpreter]
        (exec [] example_no_match [Interpreter, Caller, Caller]
           (started example_ctrl ())))) = [[]]"
proof -
  let ?c2 = "exec [] example_no_match [Caller, Caller] (started example_ctrl ())"
  let ?t1 = "exec [] example_no_match [Caller, Caller, Caller] (started example_ctrl ())"
  let ?t2 = "exec [] example_no_match
           [Arrive ''RING'', Feeder, Feeder, Feeder, Feeder, Interpreter, Interpreter,
            Caller, Caller]
           (started example_ctrl ())"
  let ?t3 = "exec [] example_no_match [Interpreter, Caller, Caller] (started example_ctrl ())"
  let ?l1 = "[Interpreter, Interpreter]"
  let ?l2 = "[Caller, Interpreter, Interpreter, Interpreter]"
  have c2: "c_pc ?c2 = C_Sentinel" by code_simp
  have t1: "\<not> interpreter_active ?t1" "i_pc ?t1 = I_Test"
    "dispatched_msgs (effects ?t1) = []" "queue ?t1 = [[]]"
    by code_simp+
  have t2: "\<not> interpreter_active ?t2" "i_pc ?t2 = I_Interpret ''RING''"
    "dispatched_msgs (effects ?t2) = []"
    by code_simp+
  have t2': "dispatched_msgs (effects (exec [] example_no_match ?l2 ?t2)) \<noteq> []"
    by code_simp
  have t3: "\<not> interpreter_active ?t3" "i_pc ?t3 = I_Get"
    "dispatched_msgs (effects ?t3) = []" "queue ?t3 = []" "put_msgs (effects ?t3) = []"
    by code_simp+
  have t3': "dispatched_msgs (effects (exec [] example_no_match ?l2 ?t3)) = [[]]"
    by code_simp
  note A = stop_at_most_one_dispatch
    [where patterns = "[]" and no_match = example_no_match and sched = "[Caller, Caller]"
       and ctrl = example_ctrl and m = "()" and t = ?t1 and later = ?l1]
  note B = stop_at_most_one_dispatch
    [where patterns = "[]" and no_match = example_no_match and sched = "[Caller, Caller]"
       and ctrl = example_ctrl and m = "()" and t = ?t2 and later = ?l2
       and msg = "''RING''"]
  note C = stop_at_most_one_dispatch
    [where patterns = "[]" and no_match = example_no_match and sched = "[Caller, Caller]"
       and ctrl = example_ctrl and m = "()" and t = ?t3 and later = ?l2]
  have 1: "\<not> interpreter_active ?c2"
    using A c2 by (simp add: stop_progress_def)
  have 2: "by_actor CallerThread (effects ?c2)
       = [FeederSlot True, ThreadStart FeederThread, ThreadStart InterpreterThread,
          InterpreterActive False]"
    using A c2 by (simp add: stop_progress_def start_effects_def stop_effects_def)
  from A t1 have 3: "dispatched_msgs (effects (exec [] example_no_match ?l1 ?t1)) = []"
    "\<exists>more. queue (exec [] example_no_match ?l1 ?t1) = [[]] @ more"
    by simp_all
  from B t2 t2' have 4: "dispatched_msgs (effects (exec [] example_no_match ?l2 ?t2)) = [''RING'']"
    by simp
  from C t3 t3' have 5: "\<exists>P. put_msgs (effects (exec [] example_no_match ?l2 ?t3)) = [] @ P
          \<and> (\<exists>x rest. [] @ P = x # rest
                \<and> dispatched_msgs (effects (exec [] example_no_match ?l2 ?t3)) = [] @ [x])"
    by simp
  from 1 2 3 4 5 t3' show ?thesis by blast
qed


theorem feeder_lock_discipline_witness:
  "exec [] example_no_match [Feeder, Feeder, Feeder, Feeder, Feeder, Feeder]
       (exec [] example_no_match [] (started example_ctrl_pending ()))
     = (exec [] example_no_match [] (started example_ctrl_pending ()))
         \<lparr>queue := [''RING''],
          ctrl_port := \<lparr>rx = [''BUSY''], tx = [], has_timeout = True\<rparr>,
          effects := effects (exec [] example_no_match [] (started example_ctrl_pending ()))
                     @ map (Pair FeederThread) (feeder_iteration ''RING'')\<rparr>
   \<and> exec [] example_no_match [Feeder, Feeder, Feeder, Feeder, Feeder, Feeder]
       (exec [] example_no_match [] (started example_ctrl ()))
     = (exec [] example_no_match [] (started example_ctrl ()))
         \<lparr>queue := [[]],
          ctrl_port := example_ctrl,
          effects := effects (exec [] example_no_match [] (started example_ctrl ()))
                     @ map (Pair FeederThread) (feeder_iteration [])\<rparr>
   \<and> feeder_step (exec [] example_no_match [Feeder, Feeder] (started example_ctrl_pending ()))
     = Some ((exec [] example_no_match [Feeder, Feeder] (started example_ctrl_pending ()))
         \<lparr>ctrl_port := (ctrl_port (exec [] example_no_match [Feeder, Feeder]
                                     (started example_ctrl_pending ())))\<lparr>rx := [''BUSY'']\<rparr>,
          f_pc := F_Put ''RING'',
          effects := effects (exec [] example_no_match [Feeder, Feeder]
                                (started example_ctrl_pending ()))
                     @ [(FeederThread, CtrlRead ''RING'')]\<rparr>)
   \<and> feeder_step (exec [] example_no_match [Feeder, Feeder] (started example_ctrl ()))
     = Some ((exec [] example_no_match [Feeder, Feeder] (started example_ctrl ()))
         \<lparr>f_pc := F_Put [],
          effects := effects (exec [] example_no_match [Feeder, Feeder] (started example_ctrl ()))
                     @ [(FeederThread, CtrlRead [])]\<rparr>)
   \<and> feeder_step (exec [] example_no_match [Feeder, Feeder] (started example_ctrl ())) \<noteq> None
   \<and> feeder_step (exec [] example_no_match [Feeder, Feeder, Feeder]
                     (started example_ctrl_pending ()))
     = Some ((exec [] example_no_match [Feeder, Feeder, Feeder] (started example_ctrl_pending ()))
         \<lparr>queue := queue (exec [] example_no_match [Feeder, Feeder, Feeder]
                              (started example_ctrl_pending ())) @ [''RING''],
          f_pc := F_Release,
          effects := effects (exec [] example_no_match [Feeder, Feeder, Feeder]
                                (started example_ctrl_pending ()))
                     @ [(FeederThread, QueuePut ''RING'')]\<rparr>)
   \<and> f_pc (exec [] example_no_match [Feeder, Feeder, Feeder, Feeder, Feeder]
           (started example_ctrl ())) = F_Sleep
   \<and> \<not> lock (exec [] example_no_match [Feeder, Feeder, Feeder, Feeder, Feeder]
           (started example_ctrl ()))"
proof -
  let ?p0 = "exec [] example_no_match [] (started example_ctrl_pending ())"
  let ?e0 = "exec [] example_no_match [] (started example_ctrl ())"
  let ?p2 = "exec [] example_no_match [Feeder, Feeder] (started example_ctrl_pending ())"
  let ?e2 = "exec [] example_no_match [Feeder, Feeder] (started example_ctrl ())"
  let ?p3 = "exec [] example_no_match [Feeder, Feeder, Feeder] (started example_ctrl_pending ())"
  let ?e5 = "exec [] example_no_match [Feeder, Feeder, Feeder, Feeder, Feeder]
               (started example_ctrl ())"
  have p0: "f_pc ?p0 = F_Test" "feeder_active ?p0" "queue ?p0 = []"
    "readline (ctrl_port ?p0) = Some (''RING'', \<lparr>rx = [''BUSY''], tx = [], has_timeout = True\<rparr>)"
    by (simp_all add: exec_def started_def example_ctrl_pending_def readline_def)
  have e0: "f_pc ?e0 = F_Test" "feeder_active ?e0" "queue ?e0 = []"
    "readline (ctrl_port ?e0) = Some ([], example_ctrl)"
    by (simp_all add: exec_def started_def example_ctrl_def readline_def)
  have p2: "f_pc ?p2 = F_Read" "rx (ctrl_port ?p2) = [''RING'', ''BUSY'']" by code_simp+
  have e2: "f_pc ?e2 = F_Read" "rx (ctrl_port ?e2) = []" by code_simp+
  have tm: "has_timeout example_ctrl" by (simp add: example_ctrl_def)
  have p3: "f_pc ?p3 = F_Put ''RING''" by code_simp
  have e5: "f_pc ?e5 = F_Sleep" by code_simp
  note a = feeder_lock_discipline
    [where patterns = "[]" and no_match = example_no_match and sched = "[]"
       and ctrl = example_ctrl_pending and m = "()" and x = "''RING''"
       and p' = "\<lparr>rx = [''BUSY''], tx = [], has_timeout = True\<rparr>"]
  note b = feeder_lock_discipline
    [where patterns = "[]" and no_match = example_no_match and sched = "[]"
       and ctrl = example_ctrl and m = "()" and x = "[]" and p' = example_ctrl]
  note c = feeder_lock_discipline
    [where patterns = "[]" and no_match = example_no_match and sched = "[Feeder, Feeder]"
       and ctrl = example_ctrl_pending and m = "()" and line = "''RING''"
       and pending_lines = "[''BUSY'']"]
  note d = feeder_lock_discipline
    [where patterns = "[]" and no_match = example_no_match and sched = "[Feeder, Feeder]"
       and ctrl = example_ctrl and m = "()"]
  note e = feeder_lock_discipline
    [where patterns = "[]" and no_match = example_no_match
       and sched = "[Feeder, Feeder, Feeder]"
       and ctrl = example_ctrl_pending and m = "()" and read_line = "''RING''"]
  note f = feeder_lock_discipline
    [where patterns = "[]" and no_match = example_no_match
       and sched = "[Feeder, Feeder, Feeder, Feeder, Feeder]"
       and ctrl = example_ctrl and m = "()"]
  have 1: "exec [] example_no_match [Feeder, Feeder, Feeder, Feeder, Feeder, Feeder] ?p0
     = ?p0\<lparr>queue := [''RING''],
          ctrl_port := \<lparr>rx = [''BUSY''], tx = [], has_timeout = True\<rparr>,
          effects := effects ?p0 @ map (Pair FeederThread) (feeder_iteration ''RING'')\<rparr>"
    using a p0 by simp
  have 2: "exec [] example_no_match [Feeder, Feeder, Feeder, Feeder, Feeder, Feeder] ?e0
     = ?e0\<lparr>queue := [[]], ctrl_port := example_ctrl,
          effects := effects ?e0 @ map (Pair FeederThread) (feeder_iteration [])\<rparr>"
    using b e0 by simp
  have 3: "feeder_step ?p2
     = Some (?p2\<lparr>ctrl_port := (ctrl_port ?p2)\<lparr>rx := [''BUSY'']\<rparr>, f_pc := F_Put ''RING'',
          effects := effects ?p2 @ [(FeederThread, CtrlRead ''RING'')]\<rparr>)"
    using c p2 by blast
  have 4: "feeder_step ?e2
     = Some (?e2\<lparr>f_pc := F_Put [], effects := effects ?e2 @ [(FeederThread, CtrlRead [])]\<rparr>)"
    "feeder_step ?e2 \<noteq> None"
    using d e2 tm by blast+
  have 5: "feeder_step ?p3
     = Some (?p3\<lparr>queue := queue ?p3 @ [''RING''], f_pc := F_Release,
          effects := effects ?p3 @ [(FeederThread, QueuePut ''RING'')]\<rparr>)"
    using e p3 by blast
  have 6: "f_pc ?e5 = F_Sleep" "\<not> lock ?e5"
    using f e5 by blast+
  from 1 2 3 4 5 6 show ?thesis by blast
qed

end
